theory Spec2Isabelle
  imports Complex_Main "HOL-Library.Multiset"
begin

section \<open>Gamepad reaction trainer: data model\<close>

text \<open>
  Three programs are embedded: \<^verbatim>\<open>xbox-gamepad-trainer.py\<close> (prefix \<open>v1\<close>),
  \<^verbatim>\<open>xbox-gamepad-trainer-v2.py\<close> (prefix \<open>v2\<close>) and \<^verbatim>\<open>reaction-trainer.py\<close>
  (prefix \<open>rt\<close>). Clock readings and reaction times are Python floats; they are read here
  as real numbers. Formatted text lines are kept as structured values: a line carries the
  numbers that the f-string would print.
\<close>

type_synonym label = string

datatype py_error = IndexError | ValueError | StatisticsError | KeyError

record Attempt =
  target :: label
  pressed :: "label option"
  reaction_s :: "real option"
  correct :: bool

record Trial =
  trial_target :: label
  trial_reaction_s :: real

record Session =
  trials :: "Trial list"
  false_starts :: int

datatype line =
    Title
  | Rule
  | Blank
  | TotalAttempts nat
  | CorrectCount nat
  | IncorrectCount int
  | Accuracy real
  | ReactionHeader
  | Mean real
  | Median real
  | Fastest real
  | Slowest real
  | NoCorrectAttempts
  | PerButtonHeader
  | ButtonStats label nat real real
  | ButtonEmpty label
  | MistakesHeader
  | Mistake label label nat
  | ExitHint
  | TrialsCompleted nat
  | FalseStarts int
  | NoTrialsCompleted

definition DEFAULT_XBOX_FACE :: "int \<rightharpoonup> label" where
  "DEFAULT_XBOX_FACE = [0 \<mapsto> ''A'', 1 \<mapsto> ''B'', 2 \<mapsto> ''X'', 3 \<mapsto> ''Y'']"

definition DEFAULT_XBOX_BUMPERS :: "int \<rightharpoonup> label" where
  "DEFAULT_XBOX_BUMPERS = [4 \<mapsto> ''LB'', 5 \<mapsto> ''RB'']"

definition TRIGGER_AXES :: "(nat \<times> label) list" where
  "TRIGGER_AXES = [(4, ''LT''), (5, ''RT'')]"

definition ALL_TARGETS :: "label list" where
  "ALL_TARGETS = [''A'', ''B'', ''X'', ''Y'', ''LB'', ''RB'', ''LT'', ''RT'']"

definition V1_TARGETS :: "label list" where
  "V1_TARGETS = [''A'', ''B'', ''X'', ''Y'']"

definition TARGET_BUTTONS :: "label list" where
  "TARGET_BUTTONS = [''A'']"

definition TRIGGER_THRESHOLD :: real where
  "TRIGGER_THRESHOLD = 6 / 10"

definition TRIGGER_RELEASE :: real where
  "TRIGGER_RELEASE = 2 / 10"


section \<open>The statistics engine\<close>

subsection \<open>Library functions that raise on empty data\<close>

definition mean :: "real list \<Rightarrow> py_error + real" where
  "mean xs = (if xs = [] then Inl StatisticsError else Inr (sum_list xs / real (length xs)))"

definition median :: "real list \<Rightarrow> py_error + real" where
  "median xs =
     (let data = sort xs; n = length data
      in if n = 0 then Inl StatisticsError
         else if n mod 2 = 1 then Inr (data ! (n div 2))
         else Inr ((data ! (n div 2 - 1) + data ! (n div 2)) / 2))"

fun py_min :: "real list \<Rightarrow> py_error + real" where
  "py_min [] = Inl ValueError"
| "py_min (x # xs) = Inr (fold min xs x)"

fun py_max :: "real list \<Rightarrow> py_error + real" where
  "py_max [] = Inl ValueError"
| "py_max (x # xs) = Inr (fold max xs x)"

text \<open>\<^verbatim>\<open>sorted(xs, key=f, reverse=True)\<close>: the list is reversed, sorted stably in ascending
  order of the key, and reversed again.\<close>

definition sorted_reverse :: "('a \<Rightarrow> nat) \<Rightarrow> 'a list \<Rightarrow> 'a list" where
  "sorted_reverse f xs = rev (sort_key f (rev xs))"

subsection \<open>SessionStats.summary\_text (v1 and v2)\<close>

definition correct_reactions :: "Attempt list \<Rightarrow> real list" where
  "correct_reactions attempts =
     map (\<lambda>a. the (reaction_s a)) (filter (\<lambda>a. correct a \<and> reaction_s a \<noteq> None) attempts)"

definition reaction_lines :: "real list \<Rightarrow> py_error + line list" where
  "reaction_lines correct_rts =
     (if correct_rts \<noteq> [] then
        (case mean correct_rts of Inl e \<Rightarrow> Inl e | Inr m \<Rightarrow>
         case median correct_rts of Inl e \<Rightarrow> Inl e | Inr md \<Rightarrow>
         case py_min correct_rts of Inl e \<Rightarrow> Inl e | Inr lo \<Rightarrow>
         case py_max correct_rts of Inl e \<Rightarrow> Inl e | Inr hi \<Rightarrow>
           Inr [Blank, ReactionHeader, Mean (m * 1000), Median (md * 1000),
                Fastest (lo * 1000), Slowest (hi * 1000)])
      else Inr [Blank, NoCorrectAttempts])"

definition button_rts :: "Attempt list \<Rightarrow> label \<Rightarrow> real list" where
  "button_rts attempts btn =
     map (\<lambda>a. the (reaction_s a))
       (filter (\<lambda>a. correct a \<and> target a = btn \<and> reaction_s a \<noteq> None) attempts)"

definition button_line :: "Attempt list \<Rightarrow> label \<Rightarrow> py_error + line" where
  "button_line attempts btn =
     (let rts = button_rts attempts btn
      in if rts \<noteq> [] then
           (case mean rts of Inl e \<Rightarrow> Inl e | Inr m \<Rightarrow>
            case median rts of Inl e \<Rightarrow> Inl e | Inr md \<Rightarrow>
              Inr (ButtonStats btn (length rts) (m * 1000) (md * 1000)))
         else Inr (ButtonEmpty btn))"

fun button_lines :: "Attempt list \<Rightarrow> label list \<Rightarrow> py_error + line list" where
  "button_lines attempts [] = Inr []"
| "button_lines attempts (btn # rest) =
     (case button_line attempts btn of Inl e \<Rightarrow> Inl e | Inr l \<Rightarrow>
      case button_lines attempts rest of Inl e \<Rightarrow> Inl e | Inr ls \<Rightarrow> Inr (l # ls))"

text \<open>The dict \<open>conf\<close> keeps its keys in insertion order: a new key goes to the end, an
  existing key keeps its place.\<close>

fun conf_add :: "label \<times> label \<Rightarrow> ((label \<times> label) \<times> nat) list \<Rightarrow> ((label \<times> label) \<times> nat) list" where
  "conf_add k [] = [(k, 0 + 1)]"
| "conf_add k ((k', n) # rest) =
     (if k = k' then (k', n + 1) # rest else (k', n) # conf_add k rest)"

definition conf_step :: "((label \<times> label) \<times> nat) list \<Rightarrow> Attempt \<Rightarrow> ((label \<times> label) \<times> nat) list" where
  "conf_step conf a =
     (if \<not> correct a \<and> pressed a \<noteq> None then conf_add (target a, the (pressed a)) conf
      else conf)"

definition conf_of :: "Attempt list \<Rightarrow> ((label \<times> label) \<times> nat) list" where
  "conf_of attempts = foldl conf_step [] attempts"

definition top_mistakes :: "((label \<times> label) \<times> nat) list \<Rightarrow> ((label \<times> label) \<times> nat) list" where
  "top_mistakes conf = take 8 (sorted_reverse snd conf)"

definition mistake_lines :: "((label \<times> label) \<times> nat) list \<Rightarrow> line list" where
  "mistake_lines conf =
     (if conf \<noteq> [] then
        [Blank, MistakesHeader] @ map (\<lambda>((t, p), n). Mistake t p n) (top_mistakes conf)
      else [])"

definition summary_text_for :: "label list \<Rightarrow> Attempt list \<Rightarrow> py_error + line list" where
  "summary_text_for targets attempts =
     (let total = length attempts;
          correct_n = length (filter correct attempts);
          incorrect = int total - int correct_n;
          acc = (if total \<noteq> 0 then real correct_n / real total * 100 else 0)
      in case reaction_lines (correct_reactions attempts) of Inl e \<Rightarrow> Inl e | Inr rl \<Rightarrow>
         case button_lines attempts targets of Inl e \<Rightarrow> Inl e | Inr bl \<Rightarrow>
           Inr ([Title, Rule, TotalAttempts total, CorrectCount correct_n,
                 IncorrectCount incorrect, Accuracy acc]
                @ rl @ [Blank, PerButtonHeader] @ bl
                @ mistake_lines (conf_of attempts) @ [Rule, ExitHint]))"

definition summary_text :: "Attempt list \<Rightarrow> py_error + line list" where
  "summary_text attempts = summary_text_for ALL_TARGETS attempts"

definition v1_summary_text :: "Attempt list \<Rightarrow> py_error + line list" where
  "v1_summary_text attempts = summary_text_for V1_TARGETS attempts"

subsection \<open>Session.summary\_lines (reaction-trainer.py)\<close>

definition reaction_times :: "Session \<Rightarrow> real list" where
  "reaction_times s = map trial_reaction_s (trials s)"

text \<open>\<open>per_button_times\<close>: a dict with one key per configured button; a trial whose target
  is not a key is dropped.\<close>

definition per_button_times :: "label list \<Rightarrow> Session \<Rightarrow> label \<rightharpoonup> real list" where
  "per_button_times targets s =
     (\<lambda>b. if b \<in> set targets
          then Some (map trial_reaction_s (filter (\<lambda>t. trial_target t = b) (trials s)))
          else None)"

definition rt_button_line :: "(label \<rightharpoonup> real list) \<Rightarrow> label \<Rightarrow> py_error + line" where
  "rt_button_line per b =
     (let xs = (case per b of None \<Rightarrow> [] | Some ys \<Rightarrow> ys)
      in if xs \<noteq> [] then
           (case mean xs of Inl e \<Rightarrow> Inl e | Inr m \<Rightarrow>
            case median xs of Inl e \<Rightarrow> Inl e | Inr md \<Rightarrow>
              Inr (ButtonStats b (length xs) (m * 1000) (md * 1000)))
         else Inr (ButtonEmpty b))"

fun rt_button_lines :: "(label \<rightharpoonup> real list) \<Rightarrow> label list \<Rightarrow> py_error + line list" where
  "rt_button_lines per [] = Inr []"
| "rt_button_lines per (b # rest) =
     (case rt_button_line per b of Inl e \<Rightarrow> Inl e | Inr l \<Rightarrow>
      case rt_button_lines per rest of Inl e \<Rightarrow> Inl e | Inr ls \<Rightarrow> Inr (l # ls))"

definition summary_lines_for :: "label list \<Rightarrow> Session \<Rightarrow> py_error + line list" where
  "summary_lines_for targets s =
     (let rts = reaction_times s; n = length rts;
          hd_lines = [Title, Rule, TrialsCompleted n, FalseStarts (false_starts s)]
      in if n \<noteq> 0 then
           (case mean rts of Inl e \<Rightarrow> Inl e | Inr m \<Rightarrow>
            case median rts of Inl e \<Rightarrow> Inl e | Inr md \<Rightarrow>
            case py_min rts of Inl e \<Rightarrow> Inl e | Inr lo \<Rightarrow>
            case py_max rts of Inl e \<Rightarrow> Inl e | Inr hi \<Rightarrow>
            case (if length targets > 1
                  then (case rt_button_lines (per_button_times targets s) targets of
                          Inl e \<Rightarrow> Inl e
                        | Inr bl \<Rightarrow> Inr ([Blank, PerButtonHeader] @ bl))
                  else Inr []) of Inl e \<Rightarrow> Inl e | Inr per_lines \<Rightarrow>
              Inr (hd_lines
                   @ [Blank, ReactionHeader, Mean (m * 1000), Median (md * 1000),
                      Fastest (lo * 1000), Slowest (hi * 1000)]
                   @ per_lines @ [Rule, ExitHint]))
         else Inr (hd_lines @ [Blank, NoTrialsCompleted] @ [Rule, ExitHint]))"

definition summary_lines :: "Session \<Rightarrow> py_error + line list" where
  "summary_lines s = summary_lines_for TARGET_BUTTONS s"

subsection \<open>Reading a report\<close>

fun line_button :: "line \<Rightarrow> label option" where
  "line_button (ButtonStats b n m md) = Some b"
| "line_button (ButtonEmpty b) = Some b"
| "line_button l = None"

fun line_mistake :: "line \<Rightarrow> ((label \<times> label) \<times> nat) option" where
  "line_mistake (Mistake t p n) = Some ((t, p), n)"
| "line_mistake l = None"

fun is_latency_line :: "line \<Rightarrow> bool" where
  "is_latency_line (Mean x) = True"
| "is_latency_line (Median x) = True"
| "is_latency_line (Fastest x) = True"
| "is_latency_line (Slowest x) = True"
| "is_latency_line l = False"

fun line_accuracy :: "line \<Rightarrow> real option" where
  "line_accuracy (Accuracy x) = Some x"
| "line_accuracy l = None"

definition button_entries :: "line list \<Rightarrow> label list" where
  "button_entries ls = List.map_filter line_button ls"

definition mistake_entries :: "line list \<Rightarrow> ((label \<times> label) \<times> nat) list" where
  "mistake_entries ls = List.map_filter line_mistake ls"

definition accuracy_entries :: "line list \<Rightarrow> real list" where
  "accuracy_entries ls = List.map_filter line_accuracy ls"

definition latency_lines :: "line list \<Rightarrow> line list" where
  "latency_lines ls = filter is_latency_line ls"

text \<open>The (target, pressed) pairs of the incorrect attempts with a known pressed label, in
  the order of the ledger; the confusion table is compared with it.\<close>

definition mistake_pairs :: "Attempt list \<Rightarrow> (label \<times> label) list" where
  "mistake_pairs attempts =
     map (\<lambda>a. (target a, the (pressed a)))
       (filter (\<lambda>a. \<not> correct a \<and> pressed a \<noteq> None) attempts)"

text \<open>What the claims say of a v1/v2 report: the accuracy line, the no-data line and the
  latency lines.\<close>

definition report_ok :: "Attempt list \<Rightarrow> line list \<Rightarrow> bool" where
  "report_ok attempts ls \<longleftrightarrow>
     accuracy_entries ls =
       [if length attempts = 0 then 0
        else real (length (filter correct attempts)) / real (length attempts) * 100]
     \<and> (correct_reactions attempts = [] \<longrightarrow>
           NoCorrectAttempts \<in> set ls \<and> latency_lines ls = [])
     \<and> (correct_reactions attempts \<noteq> [] \<longrightarrow>
           NoCorrectAttempts \<notin> set ls \<and>
           (case median (correct_reactions attempts) of
              Inl e \<Rightarrow> False
            | Inr md \<Rightarrow>
                latency_lines ls =
                  [Mean (sum_list (correct_reactions attempts)
                           / real (length (correct_reactions attempts)) * 1000),
                   Median (md * 1000),
                   Fastest (Min (set (correct_reactions attempts)) * 1000),
                   Slowest (Max (set (correct_reactions attempts)) * 1000)]))"

section \<open>The random source and the shuffle bag (v2)\<close>

text \<open>The generator of module \<open>random\<close> is a source of raw draws, consumed one per call:
  \<open>randbelow n\<close> yields a value below \<open>n\<close>, \<open>random()\<close> a 53-bit fraction in [0, 1).\<close>

record rng =
  src :: "nat \<Rightarrow> nat"
  pos :: nat

definition randbelow :: "nat \<Rightarrow> rng \<Rightarrow> nat \<times> rng" where
  "randbelow n g = (src g (pos g) mod n, g\<lparr>pos := pos g + 1\<rparr>)"

definition random_unit :: "rng \<Rightarrow> real \<times> rng" where
  "random_unit g = (real (src g (pos g) mod 2 ^ 53) / 2 ^ 53, g\<lparr>pos := pos g + 1\<rparr>)"

definition uniform :: "real \<Rightarrow> real \<Rightarrow> rng \<Rightarrow> real \<times> rng" where
  "uniform a b g = (let (u, g') = random_unit g in (a + (b - a) * u, g'))"


text \<open>\<open>random.shuffle\<close>: for \<open>i\<close> from \<open>len(x) - 1\<close> down to 1, exchange \<open>x[i]\<close> with
  \<open>x[randbelow(i + 1)]\<close>.\<close>

fun shuffle_from :: "nat \<Rightarrow> 'a list \<Rightarrow> rng \<Rightarrow> 'a list \<times> rng" where
  "shuffle_from 0 x g = (x, g)"
| "shuffle_from (Suc i) x g =
     (let (j, g') = randbelow (Suc i + 1) g
      in shuffle_from i (x[Suc i := x ! j, j := x ! Suc i]) g')"

definition shuffle :: "'a list \<Rightarrow> rng \<Rightarrow> 'a list \<times> rng" where
  "shuffle x g = shuffle_from (length x - 1) x g"

record ShuffleBag =
  sb_items :: "label list"
  sb_bag :: "label list"

definition refill :: "ShuffleBag \<Rightarrow> rng \<Rightarrow> ShuffleBag \<times> rng" where
  "refill b g = (let (s, g') = shuffle (sb_items b) g in (b\<lparr>sb_bag := s\<rparr>, g'))"

definition ShuffleBag_init :: "label list \<Rightarrow> rng \<Rightarrow> ShuffleBag \<times> rng" where
  "ShuffleBag_init its g = refill \<lparr>sb_items = its, sb_bag = []\<rparr> g"

text \<open>\<open>list.pop()\<close> takes the last element and raises IndexError on the empty list.\<close>

definition pop :: "'a list \<Rightarrow> py_error + ('a \<times> 'a list)" where
  "pop xs = (if xs = [] then Inl IndexError else Inr (last xs, butlast xs))"

definition bag_next :: "ShuffleBag \<Rightarrow> rng \<Rightarrow> py_error + (label \<times> ShuffleBag \<times> rng)" where
  "bag_next b g =
     (let (b1, g1) = (if sb_bag b = [] then refill b g else (b, g))
      in case pop (sb_bag b1) of
           Inl e \<Rightarrow> Inl e
         | Inr (x, rest) \<Rightarrow> Inr (x, b1\<lparr>sb_bag := rest\<rparr>, g1))"

definition remaining :: "ShuffleBag \<Rightarrow> nat" where
  "remaining b = length (sb_bag b)"

text \<open>\<open>n\<close> consecutive calls of \<open>next()\<close>, stopping at the first exception.\<close>

fun bag_draws :: "nat \<Rightarrow> ShuffleBag \<Rightarrow> rng \<Rightarrow> py_error + (label list \<times> ShuffleBag \<times> rng)" where
  "bag_draws 0 b g = Inr ([], b, g)"
| "bag_draws (Suc n) b g =
     (case bag_next b g of
        Inl e \<Rightarrow> Inl e
      | Inr (x, b', g') \<Rightarrow>
          (case bag_draws n b' g' of
             Inl e \<Rightarrow> Inl e
           | Inr (xs, b'', g'') \<Rightarrow> Inr (x # xs, b'', g'')))"

section \<open>Clock, events and feedback\<close>

text \<open>\<open>time.perf_counter()\<close>: every call takes the next reading of the clock.\<close>

record clock =
  readings :: "nat \<Rightarrow> real"
  reads :: nat

definition perf_counter :: "clock \<Rightarrow> real \<times> clock" where
  "perf_counter c = (readings c (reads c), c\<lparr>reads := reads c + 1\<rparr>)"

datatype phase = Delay | Prompt | Summary

datatype key = K_SPACE | K_ESCAPE | K_OTHER

datatype event = QUIT | KEYDOWN key | JOYBUTTONDOWN int int | OTHER_EVENT

text \<open>The feedback strings, with the values their f-strings format.\<close>

datatype feedback =
    FbStart
  | FbIgnored int
  | FbInput
  | FbCorrect label real
  | FbWrong label real
  | FbWrongWanted label label real
  | FbWrongWant label label
  | FbFalseStart label
  | FbNoTiming

definition DELAY_RANGE_S :: "real \<times> real" where
  "DELAY_RANGE_S = (10 / 100, 35 / 100)"


section \<open>xbox-gamepad-trainer.py (v1)\<close>

record v1_state =
  clk :: clock
  gen :: rng
  stats :: "Attempt list"
  phase :: phase
  delay_until :: real
  target_btn :: label
  prompt_shown_t :: "real option"
  last_feedback :: feedback
  last_feedback_t :: real
  summary_lines_var :: "line list"
  running :: bool







section \<open>xbox-gamepad-trainer-v2.py (v2)\<close>

record v2_state = v1_state +
  bag :: ShuffleBag
  trigger_armed :: "label \<rightharpoonup> bool"
  saved :: "line list list"

definition btn_index_to_label :: "int \<rightharpoonup> label" where
  "btn_index_to_label = DEFAULT_XBOX_FACE ++ DEFAULT_XBOX_BUMPERS"

text \<open>\<open>start_summary\<close>; the block appended to the results file is kept in \<open>saved\<close>.\<close>

definition start_summary :: "v2_state \<Rightarrow> py_error + v2_state" where
  "start_summary s =
     (case summary_text (stats (s\<lparr>phase := Summary\<rparr>)) of
        Inl e \<Rightarrow> Inl e
      | Inr ls \<Rightarrow> Inr (s\<lparr>phase := Summary, summary_lines_var := ls, saved := saved s @ [ls]\<rparr>))"

text \<open>\<open>rt = now - prompt_shown_t if prompt_shown_t else None\<close>: the test is the truth value
  of the float, so it fails for \<open>None\<close> and for \<open>0.0\<close>.\<close>

definition record_press :: "label \<Rightarrow> real \<Rightarrow> v2_state \<Rightarrow> py_error + v2_state" where
  "record_press lbl now s =
     (let rt = (case prompt_shown_t s of
                  None \<Rightarrow> None
                | Some t \<Rightarrow> if t \<noteq> 0 then Some (now - t) else None);
          corr = (lbl = target_btn s);
          s1 = s\<lparr>stats := stats s @
                   [\<lparr>target = target_btn s, pressed = Some lbl,
                     reaction_s = rt, correct = corr\<rparr>],
                 last_feedback :=
                   (case rt of
                      Some r \<Rightarrow> (if corr then FbCorrect lbl (r * 1000) else FbWrong lbl (r * 1000))
                    | None \<Rightarrow> FbInput),
                 last_feedback_t := now\<rparr>
      in if corr then
           (let (d, g1) = uniform (fst DELAY_RANGE_S) (snd DELAY_RANGE_S) (gen s1)
            in case bag_next (bag s1) g1 of
                 Inl e \<Rightarrow> Inl e
               | Inr (t, b, g2) \<Rightarrow>
                   Inr (s1\<lparr>phase := Delay, delay_until := now + d, gen := g2,
                           target_btn := t, bag := b, prompt_shown_t := None\<rparr>))
         else Inr s1)"

fun v2_handle_event :: "real \<Rightarrow> event \<Rightarrow> v2_state \<Rightarrow> py_error + v2_state" where
  "v2_handle_event now QUIT s = Inr (s\<lparr>running := False\<rparr>)"
| "v2_handle_event now (KEYDOWN k) s =
     (case (if k = K_SPACE \<and> phase s \<noteq> Summary then start_summary s else Inr s) of
        Inl e \<Rightarrow> Inl e
      | Inr s1 \<Rightarrow> Inr (if k = K_ESCAPE then s1\<lparr>running := False\<rparr> else s1))"
| "v2_handle_event now (JOYBUTTONDOWN joy idx) s =
     (if phase s = Prompt then
        (if idx = 7 then start_summary s
         else (case btn_index_to_label idx of
                 None \<Rightarrow> Inr s
               | Some lbl \<Rightarrow> if lbl \<noteq> [] then record_press lbl now s else Inr s))
      else Inr s)"
| "v2_handle_event now OTHER_EVENT s = Inr s"

fun v2_events :: "real \<Rightarrow> event list \<Rightarrow> v2_state \<Rightarrow> py_error + v2_state" where
  "v2_events now [] s = Inr s"
| "v2_events now (e # es) s =
     (case v2_handle_event now e s of Inl x \<Rightarrow> Inl x | Inr s1 \<Rightarrow> v2_events now es s1)"

text \<open>One turn of the loop over \<open>TRIGGER_AXES\<close>; \<open>axes\<close> holds the value of every axis of the
  joystick, so \<open>get_numaxes()\<close> is its length.\<close>

definition v2_poll_axis :: "real \<Rightarrow> real list \<Rightarrow> nat \<times> label \<Rightarrow> v2_state \<Rightarrow> py_error + v2_state" where
  "v2_poll_axis now axes an s =
     (let axis_idx = fst an; name = snd an
      in if axis_idx \<ge> length axes then Inr s
         else
           (let v = axes ! axis_idx
            in case (if v > TRIGGER_THRESHOLD then
                       (case trigger_armed s name of
                          None \<Rightarrow> Inl KeyError
                        | Some armed \<Rightarrow>
                            if armed then
                              record_press name now
                                (s\<lparr>trigger_armed := (trigger_armed s)(name \<mapsto> False)\<rparr>)
                            else Inr s)
                     else Inr s) of
                 Inl e \<Rightarrow> Inl e
               | Inr s1 \<Rightarrow>
                   Inr (if v < TRIGGER_RELEASE
                        then s1\<lparr>trigger_armed := (trigger_armed s1)(name \<mapsto> True)\<rparr>
                        else s1)))"

fun v2_poll_axes :: "real \<Rightarrow> real list \<Rightarrow> (nat \<times> label) list \<Rightarrow> v2_state \<Rightarrow> py_error + v2_state" where
  "v2_poll_axes now axes [] s = Inr s"
| "v2_poll_axes now axes (an # rest) s =
     (case v2_poll_axis now axes an s of
        Inl e \<Rightarrow> Inl e
      | Inr s1 \<Rightarrow> v2_poll_axes now axes rest s1)"

definition v2_poll :: "real \<Rightarrow> real list \<Rightarrow> v2_state \<Rightarrow> py_error + v2_state" where
  "v2_poll now axes s =
     (if phase s = Prompt then v2_poll_axes now axes TRIGGER_AXES s else Inr s)"

definition v2_progress :: "real \<Rightarrow> v2_state \<Rightarrow> v2_state" where
  "v2_progress now s =
     (if phase s = Delay \<and> delay_until s \<le> now then
        (let (t, c) = perf_counter (clk s)
         in s\<lparr>phase := Prompt, prompt_shown_t := Some t, clk := c,
              trigger_armed := (\<lambda>k. map_option (\<lambda>a. True) (trigger_armed s k))\<rparr>)
      else s)"

definition v2_tick :: "event list \<times> real list \<Rightarrow> v2_state \<Rightarrow> py_error + v2_state" where
  "v2_tick inp s =
     (let (now, c) = perf_counter (clk s)
      in case v2_events now (fst inp) (s\<lparr>clk := c\<rparr>) of
           Inl e \<Rightarrow> Inl e
         | Inr s1 \<Rightarrow>
             (case v2_poll now (snd inp) s1 of
                Inl e \<Rightarrow> Inl e
              | Inr s2 \<Rightarrow> Inr (v2_progress now s2)))"

text \<open>\<open>while running\<close>: the frames of a run, one input per frame.\<close>

fun v2_run :: "(event list \<times> real list) list \<Rightarrow> v2_state \<Rightarrow> py_error + v2_state" where
  "v2_run [] s = Inr s"
| "v2_run (inp # rest) s =
     (if running s then
        (case v2_tick inp s of Inl e \<Rightarrow> Inl e | Inr s1 \<Rightarrow> v2_run rest s1)
      else Inr s)"

section \<open>reaction-trainer.py (rt)\<close>















section \<open>Reading a frame\<close>





section \<open>Verification: the statistics engine\<close>

lemma mean_Inr: "xs \<noteq> [] \<Longrightarrow> mean xs = Inr (sum_list xs / real (length xs))"
  by (simp add: mean_def)

lemma sort_Nil_iff: "(sort xs = []) = (xs = [])"
  using length_sort[of "\<lambda>x. x" xs] by (metis length_0_conv)

lemma median_Inr_val: "xs \<noteq> [] \<Longrightarrow> median xs =
   Inr (if length xs mod 2 = 1 then sort xs ! (length xs div 2)
        else (sort xs ! (length xs div 2 - 1) + sort xs ! (length xs div 2)) / 2)"
  unfolding median_def Let_def by (simp add: sort_Nil_iff)

lemma median_Inr: "xs \<noteq> [] \<Longrightarrow> \<exists>m. median xs = Inr m"
  using median_Inr_val by blast

lemma py_min_Inr: "xs \<noteq> [] \<Longrightarrow> \<exists>m. py_min xs = Inr m"
  by (cases xs) simp_all

lemma py_max_Inr: "xs \<noteq> [] \<Longrightarrow> \<exists>m. py_max xs = Inr m"
  by (cases xs) simp_all

lemma reaction_lines_empty: "reaction_lines [] = Inr [Blank, NoCorrectAttempts]"
  by (simp add: reaction_lines_def)

lemma reaction_lines_nonempty:
  assumes "rts \<noteq> []"
  shows "\<exists>m md lo hi. mean rts = Inr m \<and> median rts = Inr md \<and> py_min rts = Inr lo \<and> py_max rts = Inr hi \<and>
     reaction_lines rts = Inr [Blank, ReactionHeader, Mean (m * 1000), Median (md * 1000),
                Fastest (lo * 1000), Slowest (hi * 1000)]"
proof -
  obtain md where md: "median rts = Inr md" using median_Inr[OF assms] by blast
  obtain lo where lo: "py_min rts = Inr lo" using py_min_Inr[OF assms] by blast
  obtain hi where hi: "py_max rts = Inr hi" using py_max_Inr[OF assms] by blast
  show ?thesis using assms md lo hi by (simp add: reaction_lines_def mean_Inr)
qed

lemma button_line_cases:
  "(button_rts attempts b = [] \<and> button_line attempts b = Inr (ButtonEmpty b)) \<or>
   (button_rts attempts b \<noteq> [] \<and> (\<exists>m md. mean (button_rts attempts b) = Inr m \<and> median (button_rts attempts b) = Inr md \<and>
       button_line attempts b = Inr (ButtonStats b (length (button_rts attempts b)) (m * 1000) (md * 1000))))"
proof (cases "button_rts attempts b = []")
  case True
  then show ?thesis by (simp add: button_line_def)
next
  case False
  obtain md where md: "median (button_rts attempts b) = Inr md" using median_Inr[OF False] by blast
  show ?thesis using False md by (simp add: button_line_def mean_Inr Let_def)
qed

lemma button_line_label: "\<exists>l. button_line attempts b = Inr l \<and> line_button l = Some b
   \<and> (l = ButtonEmpty b \<longleftrightarrow> button_rts attempts b = [])"
  using button_line_cases[of attempts b] by auto

lemma button_lines_total:
  "\<exists>bl. button_lines attempts targets = Inr bl \<and> map line_button bl = map Some targets
     \<and> length bl = length targets
     \<and> (\<forall>i < length targets. (bl ! i = ButtonEmpty (targets ! i)) = (button_rts attempts (targets ! i) = []))"
proof (induction targets)
  case Nil
  then show ?case by simp
next
  case (Cons b bs)
  obtain l where l: "button_line attempts b = Inr l" "line_button l = Some b"
      "(l = ButtonEmpty b \<longleftrightarrow> button_rts attempts b = [])"
    using button_line_label by blast
  obtain bl where bl: "button_lines attempts bs = Inr bl" "map line_button bl = map Some bs"
      "length bl = length bs"
      "\<forall>i < length bs. (bl ! i = ButtonEmpty (bs ! i)) = (button_rts attempts (bs ! i) = [])"
    using Cons.IH by blast
  have "\<forall>i < length (b # bs). ((l # bl) ! i = ButtonEmpty ((b # bs) ! i)) = (button_rts attempts ((b # bs) ! i) = [])"
    using l(3) bl(4) by (auto simp: nth_Cons split: nat.splits)
  then show ?case using l bl by simp
qed

lemma sorted_reverse_sorted: "sorted_wrt (\<lambda>x y. f y \<le> f x) (sorted_reverse f xs)"
proof -
  have "sorted (map f (sort_key f (rev xs)))" by simp
  then have "sorted_wrt (\<lambda>x y. f x \<le> f y) (sort_key f (rev xs))"
    by (simp add: sorted_wrt_map)
  then show ?thesis by (simp add: sorted_reverse_def sorted_wrt_rev)
qed

lemma sorted_reverse_stable:
  "filter (\<lambda>y. f y = k) (sorted_reverse f xs) = filter (\<lambda>y. f y = k) xs"
proof -
  have "filter (\<lambda>y. f y = k) (sorted_reverse f xs) = rev (filter (\<lambda>y. f y = k) (sort_key f (rev xs)))"
    by (simp add: sorted_reverse_def rev_filter)
  also have "\<dots> = rev (filter (\<lambda>y. f y = k) (rev xs))" by (simp only: sort_key_stable)
  also have "\<dots> = filter (\<lambda>y. f y = k) xs" by (simp add: rev_filter)
  finally show ?thesis .
qed

lemma sorted_reverse_mset: "mset (sorted_reverse f xs) = mset xs"
  by (simp add: sorted_reverse_def)

lemma conf_add_keys:
  "map fst (conf_add k c) = (if k \<in> set (map fst c) then map fst c else map fst c @ [k])"
  by (induction k c rule: conf_add.induct) (auto simp: image_iff)

lemma conf_add_map_of:
  "map_of (conf_add k c) k' =
     (if k' = k then Some (case map_of c k of None \<Rightarrow> 1 | Some n \<Rightarrow> n + 1) else map_of c k')"
  by (induction k c rule: conf_add.induct) auto

lemma conf_of_snoc: "conf_of (as @ [a]) = conf_step (conf_of as) a"
  by (simp add: conf_of_def)

lemma first_seen_snoc:
  "rev (remdups (rev (xs @ [k]))) = (if k \<in> set xs then rev (remdups (rev xs)) else rev (remdups (rev xs)) @ [k])"
  by simp

lemma conf_of_keys: "map fst (conf_of as) = rev (remdups (rev (mistake_pairs as)))"
proof (induction as rule: rev_induct)
  case Nil
  then show ?case by (simp add: conf_of_def mistake_pairs_def)
next
  case (snoc a as)
  have set_eq: "set (map fst (conf_of as)) = set (mistake_pairs as)"
    using snoc.IH by simp
  show ?case
  proof (cases "\<not> correct a \<and> pressed a \<noteq> None")
    case True
    then have mp: "mistake_pairs (as @ [a]) = mistake_pairs as @ [(target a, the (pressed a))]"
      by (simp add: mistake_pairs_def)
    have "map fst (conf_of (as @ [a])) = map fst (conf_add (target a, the (pressed a)) (conf_of as))"
      using True by (simp add: conf_of_snoc conf_step_def)
    then show ?thesis
      unfolding mp first_seen_snoc conf_add_keys set_eq using snoc.IH by simp
  next
    case False
    then have mp: "mistake_pairs (as @ [a]) = mistake_pairs as"
      by (auto simp add: mistake_pairs_def)
    have "conf_of (as @ [a]) = conf_of as"
      using False by (auto simp add: conf_of_snoc conf_step_def)
    then show ?thesis using mp snoc.IH by simp
  qed
qed

lemma conf_of_distinct: "distinct (map fst (conf_of as))"
  by (simp add: conf_of_keys)

lemma conf_of_tally:
  "map_of (conf_of as) k =
     (if count_list (mistake_pairs as) k = 0 then None else Some (count_list (mistake_pairs as) k))"
proof (induction as arbitrary: k rule: rev_induct)
  case Nil
  then show ?case by (simp add: conf_of_def mistake_pairs_def)
next
  case (snoc a as)
  show ?case
  proof (cases "\<not> correct a \<and> pressed a \<noteq> None")
    case True
    then have mp: "mistake_pairs (as @ [a]) = mistake_pairs as @ [(target a, the (pressed a))]"
      by (simp add: mistake_pairs_def)
    have c: "conf_of (as @ [a]) = conf_add (target a, the (pressed a)) (conf_of as)"
      using True by (simp add: conf_of_snoc conf_step_def)
    have ih: "map_of (conf_of as) k' =
        (if count_list (mistake_pairs as) k' = 0 then None else Some (count_list (mistake_pairs as) k'))" for k'
      using snoc.IH by simp
    show ?thesis unfolding c mp conf_add_map_of by (simp add: ih)
  next
    case False
    then have mp: "mistake_pairs (as @ [a]) = mistake_pairs as"
      by (auto simp add: mistake_pairs_def)
    have "conf_of (as @ [a]) = conf_of as"
      using False by (auto simp add: conf_of_snoc conf_step_def)
    then show ?thesis using mp snoc.IH by simp
  qed
qed

lemma top_mistakes_length: "length (top_mistakes c) \<le> 8"
  by (simp add: top_mistakes_def)

lemma top_mistakes_sorted: "sorted_wrt (\<lambda>x y. snd y \<le> snd x) (top_mistakes c)"
  unfolding top_mistakes_def by (rule sorted_wrt_take) (rule sorted_reverse_sorted)

lemma mistake_entries_mistake_lines: "mistake_entries (mistake_lines c) = top_mistakes c"
proof -
  have "List.map_filter line_mistake (map (\<lambda>((t, p), n). Mistake t p n) xs) = xs" for xs
    by (induction xs) (auto simp: List.map_filter_simps)
  then show ?thesis
    by (simp add: mistake_entries_def mistake_lines_def List.map_filter_simps top_mistakes_def sorted_reverse_def)
qed

lemma summary_text_for_shape:
  "\<exists>rl bl. reaction_lines (correct_reactions attempts) = Inr rl
      \<and> button_lines attempts targets = Inr bl
      \<and> summary_text_for targets attempts =
          Inr ([Title, Rule, TotalAttempts (length attempts),
                CorrectCount (length (filter correct attempts)),
                IncorrectCount (int (length attempts) - int (length (filter correct attempts))),
                Accuracy (if length attempts \<noteq> 0
                          then real (length (filter correct attempts)) / real (length attempts) * 100
                          else 0)]
               @ rl @ [Blank, PerButtonHeader] @ bl
               @ mistake_lines (conf_of attempts) @ [Rule, ExitHint])"
proof -
  have "\<exists>rl. reaction_lines (correct_reactions attempts) = Inr rl"
  proof (cases "correct_reactions attempts = []")
    case True
    then show ?thesis by (simp add: reaction_lines_empty)
  next
    case False
    then show ?thesis using reaction_lines_nonempty[OF False] by blast
  qed
  then obtain rl where rl: "reaction_lines (correct_reactions attempts) = Inr rl" by blast
  obtain bl where bl: "button_lines attempts targets = Inr bl"
    using button_lines_total by blast
  show ?thesis using rl bl by (simp add: summary_text_for_def Let_def)
qed

lemma map_filter_append: "List.map_filter f (xs @ ys) = List.map_filter f xs @ List.map_filter f ys"
  by (simp add: List.map_filter_def)

lemma reaction_lines_no_button:
  "reaction_lines rts = Inr rl \<Longrightarrow> List.map_filter line_button rl = []
     \<and> List.map_filter line_mistake rl = [] \<and> List.map_filter line_accuracy rl = []
     \<and> ButtonEmpty b \<notin> set rl"
  using reaction_lines_empty reaction_lines_nonempty[of rts]
  by (cases "rts = []") (auto simp: List.map_filter_simps)

lemma mistake_lines_no_button:
  "List.map_filter line_button (mistake_lines c) = []
   \<and> List.map_filter line_accuracy (mistake_lines c) = []
   \<and> filter is_latency_line (mistake_lines c) = []
   \<and> ButtonEmpty b \<notin> set (mistake_lines c) \<and> NoCorrectAttempts \<notin> set (mistake_lines c)"
proof -
  have a: "List.map_filter line_button (map (\<lambda>((t, p), n). Mistake t p n) xs) = []" for xs
    by (induction xs) (auto simp: List.map_filter_simps)
  have b: "List.map_filter line_accuracy (map (\<lambda>((t, p), n). Mistake t p n) xs) = []" for xs
    by (induction xs) (auto simp: List.map_filter_simps)
  have c: "filter is_latency_line (map (\<lambda>((t, p), n). Mistake t p n) xs) = []" for xs
    by (induction xs) auto
  have d: "ButtonEmpty b \<notin> set (map (\<lambda>((t, p), n). Mistake t p n) xs)
        \<and> NoCorrectAttempts \<notin> set (map (\<lambda>((t, p), n). Mistake t p n) xs)" for xs
    by (induction xs) auto
  show ?thesis using a b c d
    by (simp add: mistake_lines_def List.map_filter_simps)
qed

lemma button_lines_entries:
  assumes "button_lines attempts targets = Inr bl"
  shows "List.map_filter line_button bl = targets"
    and "List.map_filter line_mistake bl = []"
    and "List.map_filter line_accuracy bl = []"
    and "filter is_latency_line bl = []"
    and "NoCorrectAttempts \<notin> set bl"
    and "b \<in> set targets \<Longrightarrow> (ButtonEmpty b \<in> set bl) = (button_rts attempts b = [])"
    and "ButtonEmpty b \<in> set bl \<Longrightarrow> b \<in> set targets"
  using assms
proof (induction targets arbitrary: bl)
  case Nil
  { case 1 then show ?case by (simp add: List.map_filter_simps) }
  { case 2 then show ?case by (simp add: List.map_filter_simps) }
  { case 3 then show ?case by (simp add: List.map_filter_simps) }
  { case 4 then show ?case by simp }
  { case 5 then show ?case by simp }
  { case 6 then show ?case by simp }
  { case 7 then show ?case by simp }
next
  case (Cons t ts)
  have cases: "(button_rts attempts t = [] \<and> button_line attempts t = Inr (ButtonEmpty t)) \<or>
   (button_rts attempts t \<noteq> [] \<and> (\<exists>m md. 
       button_line attempts t = Inr (ButtonStats t (length (button_rts attempts t)) (m * 1000) (md * 1000))))"
    using button_line_cases[of attempts t] by blast
  { case 1
    then obtain l ls where l: "button_line attempts t = Inr l" and ls: "button_lines attempts ts = Inr ls" and bl: "bl = l # ls"
      by (auto split: sum.splits)
    show ?case using cases l bl Cons.IH(1)[OF ls] by (auto simp: List.map_filter_simps) }
  { case 2
    then obtain l ls where l: "button_line attempts t = Inr l" and ls: "button_lines attempts ts = Inr ls" and bl: "bl = l # ls"
      by (auto split: sum.splits)
    show ?case using cases l bl Cons.IH(2)[OF ls] by (auto simp: List.map_filter_simps) }
  { case 3
    then obtain l ls where l: "button_line attempts t = Inr l" and ls: "button_lines attempts ts = Inr ls" and bl: "bl = l # ls"
      by (auto split: sum.splits)
    show ?case using cases l bl Cons.IH(3)[OF ls] by (auto simp: List.map_filter_simps) }
  { case 4
    then obtain l ls where l: "button_line attempts t = Inr l" and ls: "button_lines attempts ts = Inr ls" and bl: "bl = l # ls"
      by (auto split: sum.splits)
    show ?case using cases l bl Cons.IH(4)[OF ls] by auto }
  { case 5
    then obtain l ls where l: "button_line attempts t = Inr l" and ls: "button_lines attempts ts = Inr ls" and bl: "bl = l # ls"
      by (auto split: sum.splits)
    show ?case using cases l bl Cons.IH(5)[OF ls] by auto }
  { case 6
    then obtain l ls where l: "button_line attempts t = Inr l" and ls: "button_lines attempts ts = Inr ls" and bl: "bl = l # ls"
      by (auto split: sum.splits)
    show ?case using cases l bl Cons.IH(6)[OF _ ls] Cons.IH(7)[OF _ ls] 6(1) by auto }
  { case 7
    then obtain l ls where l: "button_line attempts t = Inr l" and ls: "button_lines attempts ts = Inr ls" and bl: "bl = l # ls"
      by (auto split: sum.splits)
    show ?case using cases l bl Cons.IH(7)[OF _ ls] 7(1) by auto }
qed

lemma py_min_Cons: "py_min (x # xs) = Inr (Min (set (x # xs)))"
  by (simp only: py_min.simps Min.set_eq_fold)

lemma py_min_val: "xs \<noteq> [] \<Longrightarrow> py_min xs = Inr (Min (set xs))"
  using py_min_Cons by (metis neq_Nil_conv)

lemma py_max_Cons: "py_max (x # xs) = Inr (Max (set (x # xs)))"
  by (simp only: py_max.simps Max.set_eq_fold)

lemma py_max_val: "xs \<noteq> [] \<Longrightarrow> py_max xs = Inr (Max (set xs))"
  using py_max_Cons by (metis neq_Nil_conv)

lemma reaction_lines_val:
  "rts \<noteq> [] \<Longrightarrow> \<exists>md. median rts = Inr md \<and> reaction_lines rts =
      Inr [Blank, ReactionHeader, Mean (sum_list rts / real (length rts) * 1000), Median (md * 1000),
           Fastest (Min (set rts) * 1000), Slowest (Max (set rts) * 1000)]"
  using median_Inr[of rts]
  by (auto simp: reaction_lines_def mean_Inr py_min_val py_max_val)

lemma summary_text_for_ok:
  "\<exists>ls. summary_text_for targets attempts = Inr ls \<and> report_ok attempts ls"
proof -
  obtain rl bl where rl: "reaction_lines (correct_reactions attempts) = Inr rl"
    and bl: "button_lines attempts targets = Inr bl"
    and st: "summary_text_for targets attempts =
          Inr ([Title, Rule, TotalAttempts (length attempts),
                CorrectCount (length (filter correct attempts)),
                IncorrectCount (int (length attempts) - int (length (filter correct attempts))),
                Accuracy (if length attempts \<noteq> 0
                          then real (length (filter correct attempts)) / real (length attempts) * 100
                          else 0)]
               @ rl @ [Blank, PerButtonHeader] @ bl
               @ mistake_lines (conf_of attempts) @ [Rule, ExitHint])"
    using summary_text_for_shape by blast
  note b = button_lines_entries[OF bl]
  note m = mistake_lines_no_button[of "conf_of attempts"]
  note r = reaction_lines_no_button[OF rl]
  let ?ls = "[Title, Rule, TotalAttempts (length attempts),
                CorrectCount (length (filter correct attempts)),
                IncorrectCount (int (length attempts) - int (length (filter correct attempts))),
                Accuracy (if length attempts \<noteq> 0
                          then real (length (filter correct attempts)) / real (length attempts) * 100
                          else 0)]
               @ rl @ [Blank, PerButtonHeader] @ bl
               @ mistake_lines (conf_of attempts) @ [Rule, ExitHint]"
  have acc: "accuracy_entries ?ls = [if length attempts = 0 then 0
        else real (length (filter correct attempts)) / real (length attempts) * 100]"
    using b(3) m r by (simp add: accuracy_entries_def map_filter_append List.map_filter_simps)
  have e: "correct_reactions attempts = [] \<longrightarrow> NoCorrectAttempts \<in> set ?ls \<and> latency_lines ?ls = []"
  proof
    assume "correct_reactions attempts = []"
    then have "rl = [Blank, NoCorrectAttempts]" using rl by (simp add: reaction_lines_empty)
    then show "NoCorrectAttempts \<in> set ?ls \<and> latency_lines ?ls = []"
      using b(4) m by (simp add: latency_lines_def)
  qed
  have n: "correct_reactions attempts \<noteq> [] \<longrightarrow>
           NoCorrectAttempts \<notin> set ?ls \<and>
           (case median (correct_reactions attempts) of
              Inl e \<Rightarrow> False
            | Inr md \<Rightarrow>
                latency_lines ?ls =
                  [Mean (sum_list (correct_reactions attempts)
                           / real (length (correct_reactions attempts)) * 1000),
                   Median (md * 1000),
                   Fastest (Min (set (correct_reactions attempts)) * 1000),
                   Slowest (Max (set (correct_reactions attempts)) * 1000)])"
  proof
    assume ne: "correct_reactions attempts \<noteq> []"
    obtain md where md: "median (correct_reactions attempts) = Inr md"
      and rv: "reaction_lines (correct_reactions attempts) =
      Inr [Blank, ReactionHeader, Mean (sum_list (correct_reactions attempts) / real (length (correct_reactions attempts)) * 1000), Median (md * 1000),
           Fastest (Min (set (correct_reactions attempts)) * 1000), Slowest (Max (set (correct_reactions attempts)) * 1000)]"
      using reaction_lines_val[OF ne] by blast
    have rl': "rl = [Blank, ReactionHeader, Mean (sum_list (correct_reactions attempts) / real (length (correct_reactions attempts)) * 1000), Median (md * 1000),
           Fastest (Min (set (correct_reactions attempts)) * 1000), Slowest (Max (set (correct_reactions attempts)) * 1000)]"
      using rl rv by simp
    have "NoCorrectAttempts \<notin> set ?ls" using b(5) m by (simp add: rl')
    moreover have "latency_lines ?ls =
               [Mean (sum_list (correct_reactions attempts)
                        / real (length (correct_reactions attempts)) * 1000),
                Median (md * 1000),
                Fastest (Min (set (correct_reactions attempts)) * 1000),
                Slowest (Max (set (correct_reactions attempts)) * 1000)]"
      using b(4) m by (simp add: rl' latency_lines_def)
    ultimately show "NoCorrectAttempts \<notin> set ?ls \<and>
           (case median (correct_reactions attempts) of
              Inl e \<Rightarrow> False
            | Inr md \<Rightarrow>
                latency_lines ?ls =
                  [Mean (sum_list (correct_reactions attempts)
                           / real (length (correct_reactions attempts)) * 1000),
                   Median (md * 1000),
                   Fastest (Min (set (correct_reactions attempts)) * 1000),
                   Slowest (Max (set (correct_reactions attempts)) * 1000)])"
      using md by simp
  qed
  have "report_ok attempts ?ls" unfolding report_ok_def using acc e n by blast
  then show ?thesis using st by blast
qed

lemma rt_button_lines_total:
  "\<exists>bl. rt_button_lines per targets = Inr bl \<and> List.map_filter line_button bl = targets"
proof (induction targets)
  case Nil
  then show ?case by (simp add: List.map_filter_simps)
next
  case (Cons b bs)
  then obtain bl where bl: "rt_button_lines per bs = Inr bl" "List.map_filter line_button bl = bs"
    by blast
  let ?xs = "(case per b of None \<Rightarrow> [] | Some ys \<Rightarrow> ys)"
  show ?case
  proof (cases "?xs = []")
    case True
    then have "rt_button_line per b = Inr (ButtonEmpty b)" by (simp add: rt_button_line_def)
    then show ?thesis using bl by (simp add: List.map_filter_simps)
  next
    case False
    obtain md where md: "median ?xs = Inr md" using median_Inr[OF False] by blast
    have "rt_button_line per b = Inr (ButtonStats b (length ?xs) (sum_list ?xs / real (length ?xs) * 1000) (md * 1000))"
      using False md by (simp add: rt_button_line_def mean_Inr Let_def)
    then show ?thesis using bl by (simp add: List.map_filter_simps)
  qed
qed

lemma summary_lines_for_shape:
  "\<exists>ls. summary_lines_for targets s = Inr ls
      \<and> button_entries ls = (if trials s \<noteq> [] \<and> length targets > 1 then targets else [])"
proof (cases "trials s = []")
  case True
  then show ?thesis
    by (simp add: summary_lines_for_def reaction_times_def button_entries_def List.map_filter_simps)
next
  case False
  then have ne: "reaction_times s \<noteq> []" by (simp add: reaction_times_def)
  obtain md where md: "median (reaction_times s) = Inr md" using median_Inr[OF ne] by blast
  obtain bl where bl: "rt_button_lines (per_button_times targets s) targets = Inr bl"
     "List.map_filter line_button bl = targets"
    using rt_button_lines_total by blast
  show ?thesis using ne md bl False
    by (simp add: summary_lines_for_def Let_def mean_Inr py_min_val py_max_val
        button_entries_def map_filter_append List.map_filter_simps)
qed

lemma summary_text_for_buttons:
  "\<exists>ls. summary_text_for targets attempts = Inr ls
      \<and> button_entries ls = targets
      \<and> (\<forall>b\<in>set targets. (ButtonEmpty b \<in> set ls) = (button_rts attempts b = []))"
proof -
  obtain rl bl where rl: "reaction_lines (correct_reactions attempts) = Inr rl"
    and bl: "button_lines attempts targets = Inr bl"
    and st: "summary_text_for targets attempts =
          Inr ([Title, Rule, TotalAttempts (length attempts),
                CorrectCount (length (filter correct attempts)),
                IncorrectCount (int (length attempts) - int (length (filter correct attempts))),
                Accuracy (if length attempts \<noteq> 0
                          then real (length (filter correct attempts)) / real (length attempts) * 100
                          else 0)]
               @ rl @ [Blank, PerButtonHeader] @ bl
               @ mistake_lines (conf_of attempts) @ [Rule, ExitHint])"
    using summary_text_for_shape by blast
  note b = button_lines_entries[OF bl]
  note m = mistake_lines_no_button[of "conf_of attempts"]
  note r = reaction_lines_no_button[OF rl]
  let ?ls = "[Title, Rule, TotalAttempts (length attempts),
                CorrectCount (length (filter correct attempts)),
                IncorrectCount (int (length attempts) - int (length (filter correct attempts))),
                Accuracy (if length attempts \<noteq> 0
                          then real (length (filter correct attempts)) / real (length attempts) * 100
                          else 0)]
               @ rl @ [Blank, PerButtonHeader] @ bl
               @ mistake_lines (conf_of attempts) @ [Rule, ExitHint]"
  have e: "button_entries ?ls = targets"
    using b(1) m r by (simp add: button_entries_def map_filter_append List.map_filter_simps)
  have "(ButtonEmpty b \<in> set ?ls) = (button_rts attempts b = [])" if "b \<in> set targets" for b
    using b(6)[OF that] m r by simp
  then show ?thesis using st e by blast
qed

lemma button_rts_empty_iff:
  "(button_rts attempts b = []) =
   (\<forall>a\<in>set attempts. \<not> (correct a \<and> target a = b \<and> reaction_s a \<noteq> None))"
  by (simp add: button_rts_def filter_empty_conv del: not_None_eq)

lemma rt_button_lines_marker:
  "\<exists>bl. rt_button_lines per targets = Inr bl \<and> List.map_filter line_button bl = targets
      \<and> (\<forall>b. (ButtonEmpty b \<in> set bl) =
               (b \<in> set targets \<and> (case per b of None \<Rightarrow> [] | Some ys \<Rightarrow> ys) = []))"
proof (induction targets)
  case Nil
  then show ?case by (simp add: List.map_filter_simps)
next
  case (Cons t ts)
  then obtain bl where bl: "rt_button_lines per ts = Inr bl" "List.map_filter line_button bl = ts"
    "\<And>b. (ButtonEmpty b \<in> set bl) =
               (b \<in> set ts \<and> (case per b of None \<Rightarrow> [] | Some ys \<Rightarrow> ys) = [])"
    by blast
  let ?xs = "(case per t of None \<Rightarrow> [] | Some ys \<Rightarrow> ys)"
  show ?case
  proof (cases "?xs = []")
    case True
    then have l: "rt_button_line per t = Inr (ButtonEmpty t)" by (simp add: rt_button_line_def)
    have "rt_button_lines per (t # ts) = Inr (ButtonEmpty t # bl)" using l bl(1) by simp
    moreover have "List.map_filter line_button (ButtonEmpty t # bl) = t # ts"
      using bl(2) by (simp add: List.map_filter_simps)
    moreover have "\<forall>b. (ButtonEmpty b \<in> set (ButtonEmpty t # bl)) =
               (b \<in> set (t # ts) \<and> (case per b of None \<Rightarrow> [] | Some ys \<Rightarrow> ys) = [])"
      using bl(3) True by auto
    ultimately show ?thesis by blast
  next
    case False
    obtain md where md: "median ?xs = Inr md" using median_Inr[OF False] by blast
    let ?l = "ButtonStats t (length ?xs) (sum_list ?xs / real (length ?xs) * 1000) (md * 1000)"
    have l: "rt_button_line per t = Inr ?l"
      using False md by (simp add: rt_button_line_def mean_Inr Let_def)
    have "rt_button_lines per (t # ts) = Inr (?l # bl)" using l bl(1) by simp
    moreover have "List.map_filter line_button (?l # bl) = t # ts"
      using bl(2) by (simp add: List.map_filter_simps)
    moreover have "\<forall>b. (ButtonEmpty b \<in> set (?l # bl)) =
               (b \<in> set (t # ts) \<and> (case per b of None \<Rightarrow> [] | Some ys \<Rightarrow> ys) = [])"
      using bl(3) False by auto
    ultimately show ?thesis by blast
  qed
qed

lemma per_button_times_empty_iff:
  "b \<in> set targets \<Longrightarrow>
   ((case per_button_times targets s b of None \<Rightarrow> [] | Some ys \<Rightarrow> ys) = []) =
   (\<forall>t\<in>set (trials s). trial_target t \<noteq> b)"
  by (simp add: per_button_times_def filter_empty_conv)

lemma summary_lines_for_buttons:
  "\<exists>ls. summary_lines_for targets s = Inr ls
      \<and> button_entries ls = (if trials s \<noteq> [] \<and> 1 < length targets then targets else [])
      \<and> (\<forall>b\<in>set targets. (ButtonEmpty b \<in> set ls) =
            (trials s \<noteq> [] \<and> 1 < length targets \<and> (\<forall>t\<in>set (trials s). trial_target t \<noteq> b)))"
proof (cases "trials s = []")
  case True
  then show ?thesis
    by (simp add: summary_lines_for_def reaction_times_def button_entries_def List.map_filter_simps)
next
  case False
  then have ne: "reaction_times s \<noteq> []" by (simp add: reaction_times_def)
  obtain md where md: "median (reaction_times s) = Inr md" using median_Inr[OF ne] by blast
  obtain bl where bl: "rt_button_lines (per_button_times targets s) targets = Inr bl"
     "List.map_filter line_button bl = targets"
     "\<And>b. (ButtonEmpty b \<in> set bl) =
               (b \<in> set targets \<and> (case per_button_times targets s b of None \<Rightarrow> [] | Some ys \<Rightarrow> ys) = [])"
    using rt_button_lines_marker[of "per_button_times targets s" targets] by blast
  have mk: "(ButtonEmpty b \<in> set bl) = (\<forall>t\<in>set (trials s). trial_target t \<noteq> b)"
    if "b \<in> set targets" for b
    using bl(3)[of b] per_button_times_empty_iff[OF that, of s] that by simp
  show ?thesis
  proof (cases "1 < length targets")
    case True
    have st: "summary_lines_for targets s =
      Inr ([Title, Rule, TrialsCompleted (length (reaction_times s)), FalseStarts (false_starts s)]
           @ [Blank, ReactionHeader,
              Mean (sum_list (reaction_times s) / real (length (reaction_times s)) * 1000),
              Median (md * 1000), Fastest (Min (set (reaction_times s)) * 1000),
              Slowest (Max (set (reaction_times s)) * 1000)]
           @ ([Blank, PerButtonHeader] @ bl) @ [Rule, ExitHint])"
      using ne md bl(1) True
      by (simp add: summary_lines_for_def Let_def mean_Inr py_min_val py_max_val)
    show ?thesis unfolding st using bl(2) mk True False
      by (simp add: button_entries_def map_filter_append List.map_filter_simps)
  next
    case F: False
    have st: "summary_lines_for targets s =
      Inr ([Title, Rule, TrialsCompleted (length (reaction_times s)), FalseStarts (false_starts s)]
           @ [Blank, ReactionHeader,
              Mean (sum_list (reaction_times s) / real (length (reaction_times s)) * 1000),
              Median (md * 1000), Fastest (Min (set (reaction_times s)) * 1000),
              Slowest (Max (set (reaction_times s)) * 1000)]
           @ [] @ [Rule, ExitHint])"
      using ne md F
      by (simp add: summary_lines_for_def Let_def mean_Inr py_min_val py_max_val)
    show ?thesis unfolding st using F
      by (simp add: button_entries_def map_filter_append List.map_filter_simps)
  qed
qed

lemma summary_text_for_mistakes:
  "\<exists>ls. summary_text_for targets attempts = Inr ls
      \<and> mistake_entries ls = top_mistakes (conf_of attempts)"
proof -
  obtain rl bl where rl: "reaction_lines (correct_reactions attempts) = Inr rl"
    and bl: "button_lines attempts targets = Inr bl"
    and st: "summary_text_for targets attempts =
          Inr ([Title, Rule, TotalAttempts (length attempts),
                CorrectCount (length (filter correct attempts)),
                IncorrectCount (int (length attempts) - int (length (filter correct attempts))),
                Accuracy (if length attempts \<noteq> 0
                          then real (length (filter correct attempts)) / real (length attempts) * 100
                          else 0)]
               @ rl @ [Blank, PerButtonHeader] @ bl
               @ mistake_lines (conf_of attempts) @ [Rule, ExitHint])"
    using summary_text_for_shape by blast
  note b = button_lines_entries[OF bl]
  note r = reaction_lines_no_button[OF rl]
  have m: "List.map_filter line_mistake (mistake_lines (conf_of attempts)) = top_mistakes (conf_of attempts)"
    using mistake_entries_mistake_lines by (simp add: mistake_entries_def)
  show ?thesis unfolding st
    using b(2) r m by (simp add: mistake_entries_def map_filter_append List.map_filter_simps)
qed

text \<open>Claim C7. The statistics report is total: for every ledger the v2 report
  (\<open>summary_text\<close>), the v1 report and the reaction-trainer report are computed without an
  exception. The accuracy line carries correct / total (printed as a percentage, times 100) and
  carries 0 for the empty ledger. When no correct attempt with a latency exists the report has
  the explicit no-data line and no mean, median, fastest or slowest line; otherwise it has
  exactly these four lines with the mean, the median, the minimum and the maximum of the
  correct latencies (in milliseconds).\<close>

theorem statistics_report_total:
  "(\<exists>ls. summary_text attempts = Inr ls \<and> report_ok attempts ls)
   \<and> (\<exists>ls. v1_summary_text attempts = Inr ls \<and> report_ok attempts ls)
   \<and> (\<exists>ls. summary_lines_for targets se = Inr ls)"
  unfolding summary_text_def v1_summary_text_def
  using summary_text_for_ok summary_lines_for_shape by blast

text \<open>Claim C7 at the empty ledger and at a ledger with one wrong and one
  correct press.\<close>

theorem statistics_report_total_witness:
  "correct_reactions [] = []
   \<and> (\<exists>ls. summary_text [] = Inr ls \<and> accuracy_entries ls = [0]
          \<and> NoCorrectAttempts \<in> set ls \<and> latency_lines ls = [])
   \<and> correct_reactions
        [\<lparr>target = ''A'', pressed = Some ''B'', reaction_s = Some (3 / 10), correct = False\<rparr>,
         \<lparr>target = ''A'', pressed = Some ''A'', reaction_s = Some (1 / 4), correct = True\<rparr>] \<noteq> []
   \<and> (\<exists>ls. summary_text
          [\<lparr>target = ''A'', pressed = Some ''B'', reaction_s = Some (3 / 10), correct = False\<rparr>,
           \<lparr>target = ''A'', pressed = Some ''A'', reaction_s = Some (1 / 4), correct = True\<rparr>] = Inr ls
          \<and> accuracy_entries ls = [50]
          \<and> latency_lines ls = [Mean 250, Median 250, Fastest 250, Slowest 250])"
proof -
  let ?as = "[\<lparr>target = ''A'', pressed = Some ''B'', reaction_s = Some (3 / 10), correct = False\<rparr>,
         \<lparr>target = ''A'', pressed = Some ''A'', reaction_s = Some (1 / 4), correct = True\<rparr>]"
  have c0: "correct_reactions [] = []" by (simp add: correct_reactions_def)
  have c1: "correct_reactions ?as = [1 / 4]" by (simp add: correct_reactions_def del: not_None_eq)
  have md: "median [1 / 4] = Inr (1 / 4)" by (simp add: median_def)
  have a: "\<exists>ls. summary_text [] = Inr ls \<and> accuracy_entries ls = [0]
          \<and> NoCorrectAttempts \<in> set ls \<and> latency_lines ls = []"
    using statistics_report_total[of "[]"] c0 by (auto simp: report_ok_def)
  have b: "\<exists>ls. summary_text ?as = Inr ls \<and> accuracy_entries ls = [50]
          \<and> latency_lines ls = [Mean 250, Median 250, Fastest 250, Slowest 250]"
    using statistics_report_total[of ?as] by (auto simp: report_ok_def c1 md)
  show ?thesis using a b c0 c1 by simp
qed

text \<open>Claim C8, as amended. In every v2 report and every v1 report the per-label
  breakdown has exactly one entry for each configured label, in order, and a label has the
  empty marker exactly when the ledger holds no correct attempt with a latency for it. In
  reaction-trainer.py the breakdown is rendered only when at least one trial was completed and
  more than one target is configured: it then has exactly one entry for each configured label,
  in order, and a label has the empty marker exactly when the session holds no trial for it;
  otherwise the report has no per-label entry at all.\<close>

theorem per_label_breakdown:
  "(\<exists>ls. summary_text attempts = Inr ls \<and> button_entries ls = ALL_TARGETS
      \<and> (\<forall>b\<in>set ALL_TARGETS. (ButtonEmpty b \<in> set ls) =
            (\<forall>a\<in>set attempts. \<not> (correct a \<and> target a = b \<and> reaction_s a \<noteq> None))))
   \<and> (\<exists>ls. v1_summary_text attempts = Inr ls \<and> button_entries ls = V1_TARGETS
      \<and> (\<forall>b\<in>set V1_TARGETS. (ButtonEmpty b \<in> set ls) =
            (\<forall>a\<in>set attempts. \<not> (correct a \<and> target a = b \<and> reaction_s a \<noteq> None))))
   \<and> (\<exists>ls. summary_lines_for targets s = Inr ls
      \<and> button_entries ls = (if trials s \<noteq> [] \<and> 1 < length targets then targets else [])
      \<and> (\<forall>b\<in>set targets. (ButtonEmpty b \<in> set ls) =
            (trials s \<noteq> [] \<and> 1 < length targets \<and> (\<forall>t\<in>set (trials s). trial_target t \<noteq> b))))"
  unfolding summary_text_def v1_summary_text_def
  using summary_text_for_buttons[of ALL_TARGETS attempts] summary_text_for_buttons[of V1_TARGETS attempts]
    summary_lines_for_buttons[of targets s]
  unfolding button_rts_empty_iff by blast

text \<open>Claim C8 (amended) at the empty v2 and v1 ledgers and at a two-target
  reaction-trainer session with one trial for A and none for B.\<close>

theorem per_label_breakdown_witness:
  "''RT'' \<in> set ALL_TARGETS \<and> ''A'' \<in> set V1_TARGETS
   \<and> (\<exists>ls. summary_text [] = Inr ls \<and> button_entries ls = ALL_TARGETS \<and> ButtonEmpty ''RT'' \<in> set ls)
   \<and> (\<exists>ls. v1_summary_text [] = Inr ls \<and> button_entries ls = V1_TARGETS \<and> ButtonEmpty ''A'' \<in> set ls)
   \<and> ''A'' \<in> set [''A'', ''B''] \<and> ''B'' \<in> set [''A'', ''B'']
   \<and> (\<exists>ls. summary_lines_for [''A'', ''B'']
              \<lparr>trials = [\<lparr>trial_target = ''A'', trial_reaction_s = 1 / 4\<rparr>], false_starts = 0\<rparr> = Inr ls
          \<and> button_entries ls = [''A'', ''B'']
          \<and> ButtonEmpty ''B'' \<in> set ls \<and> ButtonEmpty ''A'' \<notin> set ls)"
proof -
  let ?s = "\<lparr>trials = [\<lparr>trial_target = ''A'', trial_reaction_s = 1 / 4\<rparr>], false_starts = 0\<rparr>"
  note t = per_label_breakdown[of "[]" "[''A'', ''B'']" ?s]
  have m: "''RT'' \<in> set ALL_TARGETS" by (simp add: ALL_TARGETS_def)
  have m1: "''A'' \<in> set V1_TARGETS" by (simp add: V1_TARGETS_def)
  have a: "\<exists>ls. summary_text [] = Inr ls \<and> button_entries ls = ALL_TARGETS \<and> ButtonEmpty ''RT'' \<in> set ls"
  proof -
    from t[THEN conjunct1] obtain ls where l: "summary_text [] = Inr ls" "button_entries ls = ALL_TARGETS"
      "\<forall>b\<in>set ALL_TARGETS. (ButtonEmpty b \<in> set ls) =
            (\<forall>a\<in>set ([]::Attempt list). \<not> (correct a \<and> target a = b \<and> reaction_s a \<noteq> None))"
      by blast
    have "ButtonEmpty ''RT'' \<in> set ls" using l(3) m by simp
    then show ?thesis using l(1,2) by blast
  qed
  have a1: "\<exists>ls. v1_summary_text [] = Inr ls \<and> button_entries ls = V1_TARGETS \<and> ButtonEmpty ''A'' \<in> set ls"
  proof -
    from t[THEN conjunct2, THEN conjunct1] obtain ls where l: "v1_summary_text [] = Inr ls" "button_entries ls = V1_TARGETS"
      "\<forall>b\<in>set V1_TARGETS. (ButtonEmpty b \<in> set ls) =
            (\<forall>a\<in>set ([]::Attempt list). \<not> (correct a \<and> target a = b \<and> reaction_s a \<noteq> None))"
      by blast
    have "ButtonEmpty ''A'' \<in> set ls" using l(3) m1 by simp
    then show ?thesis using l(1,2) by blast
  qed
  have b: "\<exists>ls. summary_lines_for [''A'', ''B''] ?s = Inr ls
          \<and> button_entries ls = [''A'', ''B'']
          \<and> ButtonEmpty ''B'' \<in> set ls \<and> ButtonEmpty ''A'' \<notin> set ls"
  proof -
    from t[THEN conjunct2, THEN conjunct2] obtain ls where l: "summary_lines_for [''A'', ''B''] ?s = Inr ls"
      "button_entries ls = (if trials ?s \<noteq> [] \<and> 1 < length [''A'', ''B''] then [''A'', ''B''] else [])"
      "\<forall>b\<in>set [''A'', ''B'']. (ButtonEmpty b \<in> set ls) =
            (trials ?s \<noteq> [] \<and> 1 < length [''A'', ''B''] \<and> (\<forall>t\<in>set (trials ?s). trial_target t \<noteq> b))"
      by blast
    have "button_entries ls = [''A'', ''B'']" using l(2) by simp
    moreover have "ButtonEmpty ''B'' \<in> set ls" using l(3) by simp
    moreover have "ButtonEmpty ''A'' \<notin> set ls" using l(3) by simp
    ultimately show ?thesis using l(1) by blast
  qed
  show ?thesis using m m1 a a1 b by simp
qed

text \<open>Claim C8 as stated fails for reaction-trainer.py: with the configured
  \<open>TARGET_BUTTONS = ["A"]\<close> and one completed trial, the report has no per-label entry for A.\<close>

theorem per_label_breakdown_counterexample:
  "''A'' \<in> set TARGET_BUTTONS
   \<and> summary_lines \<lparr>trials = [\<lparr>trial_target = ''A'', trial_reaction_s = 1 / 4\<rparr>], false_starts = 0\<rparr>
       = Inr [Title, Rule, TrialsCompleted 1, FalseStarts 0, Blank, ReactionHeader,
              Mean 250, Median 250, Fastest 250, Slowest 250, Rule, ExitHint]
   \<and> ''A'' \<notin> set (button_entries
        [Title, Rule, TrialsCompleted 1, FalseStarts 0, Blank, ReactionHeader,
         Mean 250, Median 250, Fastest 250, Slowest 250, Rule, ExitHint])"
  by (simp add: TARGET_BUTTONS_def summary_lines_def summary_lines_for_def reaction_times_def
      mean_def median_def button_entries_def List.map_filter_simps)

text \<open>Claim C9. The confusion table of a v2 report tallies the (target, pressed) pairs of the
  incorrect attempts with a known pressed label: each pair occurs once as a key, with the number
  of such attempts as its count, and the keys stand in first-seen order. The report lists the
  first 8 entries of the table sorted by count, so at most 8, in non-increasing order of count;
  the sort is stable, so entries with equal counts keep their first-seen order.\<close>

theorem confusion_summary:
  "\<exists>ls. summary_text attempts = Inr ls
     \<and> mistake_entries ls = take 8 (sorted_reverse snd (conf_of attempts))
     \<and> length (mistake_entries ls) \<le> 8
     \<and> sorted_wrt (\<lambda>x y. snd y \<le> snd x) (mistake_entries ls)
     \<and> distinct (map fst (conf_of attempts))
     \<and> (\<forall>k. map_of (conf_of attempts) k =
            (if count_list (mistake_pairs attempts) k = 0 then None
             else Some (count_list (mistake_pairs attempts) k)))
     \<and> map fst (conf_of attempts) = rev (remdups (rev (mistake_pairs attempts)))
     \<and> (\<forall>n. filter (\<lambda>e. snd e = n) (sorted_reverse snd (conf_of attempts))
            = filter (\<lambda>e. snd e = n) (conf_of attempts))"
proof -
  obtain ls where ls: "summary_text attempts = Inr ls"
      "mistake_entries ls = top_mistakes (conf_of attempts)"
    unfolding summary_text_def using summary_text_for_mistakes by blast
  have "length (mistake_entries ls) \<le> 8" using ls(2) top_mistakes_length by simp
  moreover have "sorted_wrt (\<lambda>x y. snd y \<le> snd x) (mistake_entries ls)"
    using ls(2) top_mistakes_sorted by simp
  moreover have "mistake_entries ls = take 8 (sorted_reverse snd (conf_of attempts))"
    using ls(2) by (simp add: top_mistakes_def)
  ultimately show ?thesis
    using ls(1) conf_of_distinct conf_of_tally conf_of_keys sorted_reverse_stable by blast
qed

text \<open>Claim C9 at a ledger with a tie: the pairs with count 1 keep their
  first-seen order behind the pair with count 2.\<close>

theorem confusion_summary_witness:
  "\<exists>ls. summary_text
      [\<lparr>target = ''A'', pressed = Some ''B'', reaction_s = Some (3 / 10), correct = False\<rparr>,
       \<lparr>target = ''X'', pressed = Some ''Y'', reaction_s = Some (3 / 10), correct = False\<rparr>,
       \<lparr>target = ''B'', pressed = Some ''A'', reaction_s = Some (3 / 10), correct = False\<rparr>,
       \<lparr>target = ''X'', pressed = Some ''Y'', reaction_s = Some (4 / 10), correct = False\<rparr>] = Inr ls
     \<and> mistake_entries ls = [((''X'', ''Y''), 2), ((''A'', ''B''), 1), ((''B'', ''A''), 1)]"
proof -
  let ?as = "[\<lparr>target = ''A'', pressed = Some ''B'', reaction_s = Some (3 / 10), correct = False\<rparr>,
       \<lparr>target = ''X'', pressed = Some ''Y'', reaction_s = Some (3 / 10), correct = False\<rparr>,
       \<lparr>target = ''B'', pressed = Some ''A'', reaction_s = Some (3 / 10), correct = False\<rparr>,
       \<lparr>target = ''X'', pressed = Some ''Y'', reaction_s = Some (4 / 10), correct = False\<rparr>]"
  have c: "conf_of ?as = [((''A'', ''B''), 1), ((''X'', ''Y''), 2), ((''B'', ''A''), 1)]"
    by (simp add: conf_of_def conf_step_def)
  have t: "take 8 (sorted_reverse snd (conf_of ?as))
      = [((''X'', ''Y''), 2), ((''A'', ''B''), 1), ((''B'', ''A''), 1)]"
    unfolding c by (simp add: sorted_reverse_def)
  show ?thesis using confusion_summary[of ?as] unfolding t by blast
qed

section \<open>Verification: the shuffle bag\<close>

lemma shuffle_from_mset:
  "i < length x \<Longrightarrow> mset (fst (shuffle_from i x g)) = mset x"
proof (induction i arbitrary: x g)
  case 0
  then show ?case by simp
next
  case (Suc i)
  let ?j = "src g (pos g) mod (Suc i + 1)"
  have "?j < Suc i + 1" by simp
  then have j: "?j < length x" using Suc.prems by linarith
  have sw: "mset (x[Suc i := x ! ?j, ?j := x ! Suc i]) = mset x"
    using mset_swap[OF j Suc.prems] .
  have "i < length (x[Suc i := x ! ?j, ?j := x ! Suc i])" using Suc.prems by simp
  from Suc.IH[OF this, of "g\<lparr>pos := pos g + 1\<rparr>"] sw show ?case
    by (simp add: randbelow_def)
qed

lemma shuffle_mset: "mset (fst (shuffle x g)) = mset x"
proof (cases "x = []")
  case True
  then show ?thesis by (simp add: shuffle_def)
next
  case False
  then have "length x - 1 < length x" by (cases x) simp_all
  then show ?thesis unfolding shuffle_def by (rule shuffle_from_mset)
qed

lemma refill_bag: "mset (sb_bag (fst (refill b g))) = mset (sb_items b)"
   and refill_items: "sb_items (fst (refill b g)) = sb_items b"
  using shuffle_mset[of "sb_items b" g]
  by (simp_all add: refill_def split_def Let_def)

lemma init_bag: "mset (sb_bag (fst (ShuffleBag_init its g))) = mset its"
  and init_items: "sb_items (fst (ShuffleBag_init its g)) = its"
  unfolding ShuffleBag_init_def using refill_bag[of "\<lparr>sb_items = its, sb_bag = []\<rparr>" g]
    refill_items[of "\<lparr>sb_items = its, sb_bag = []\<rparr>" g] by simp_all

lemma bag_next_nonempty:
  "sb_bag b \<noteq> [] \<Longrightarrow> bag_next b g = Inr (last (sb_bag b), b\<lparr>sb_bag := butlast (sb_bag b)\<rparr>, g)"
  by (simp add: bag_next_def pop_def)

lemma bag_next_empty:
  "sb_bag b = [] \<Longrightarrow> bag_next b g = (case pop (sb_bag (fst (refill b g))) of
      Inl e \<Rightarrow> Inl e
    | Inr (x, rest) \<Rightarrow> Inr (x, (fst (refill b g))\<lparr>sb_bag := rest\<rparr>, snd (refill b g)))"
  by (simp add: bag_next_def split_def Let_def)

lemma bag_next_refilled:
  assumes "sb_bag b = []" "sb_items b \<noteq> []"
  shows "bag_next b g = bag_next (fst (refill b g)) (snd (refill b g))"
proof -
  have "mset (sb_bag (fst (refill b g))) \<noteq> {#}" using assms(2) refill_bag[of b g] by simp
  then have ne: "sb_bag (fst (refill b g)) \<noteq> []" by auto
  show ?thesis unfolding bag_next_empty[OF assms(1)] bag_next_nonempty[OF ne]
    using ne by (simp add: pop_def)
qed

lemma bag_draws_full:
  "sb_bag b = cs \<Longrightarrow> bag_draws (length cs) b g = Inr (rev cs, b\<lparr>sb_bag := []\<rparr>, g)"
proof (induction cs arbitrary: b rule: rev_induct)
  case Nil
  then show ?case by simp
next
  case (snoc x cs)
  have ne: "sb_bag b \<noteq> []" using snoc.prems by simp
  have n: "bag_next b g = Inr (x, b\<lparr>sb_bag := cs\<rparr>, g)"
    using bag_next_nonempty[OF ne, of g] snoc.prems by simp
  have "bag_draws (length cs) (b\<lparr>sb_bag := cs\<rparr>) g = Inr (rev cs, b\<lparr>sb_bag := cs\<rparr>\<lparr>sb_bag := []\<rparr>, g)"
    by (rule snoc.IH) simp
  then show ?case using n by simp
qed

lemma bag_draws_refilled:
  assumes "sb_bag b = []" "sb_items b \<noteq> []" "0 < n"
  shows "bag_draws n b g = bag_draws n (fst (refill b g)) (snd (refill b g))"
proof -
  obtain m where "n = Suc m" using assms(3) by (cases n) auto
  then show ?thesis using bag_next_refilled[OF assms(1,2), of g] by simp
qed

lemma bag_next_items:
  "bag_next b g = Inr (x, b', g') \<Longrightarrow> sb_items b' = sb_items b"
proof (cases "sb_bag b = []")
  case True
  assume a: "bag_next b g = Inr (x, b', g')"
  show ?thesis using a refill_items[of b g] unfolding bag_next_empty[OF True]
    by (auto simp: pop_def split: if_splits)
next
  case False
  assume a: "bag_next b g = Inr (x, b', g')"
  show ?thesis using a unfolding bag_next_nonempty[OF False] by auto
qed

lemma bag_next_succeeds:
  assumes "sb_items b \<noteq> []"
  shows "\<exists>x b' g'. bag_next b g = Inr (x, b', g')"
proof (cases "sb_bag b = []")
  case True
  have "mset (sb_bag (fst (refill b g))) \<noteq> {#}" using assms refill_bag[of b g] by simp
  then have ne: "sb_bag (fst (refill b g)) \<noteq> []" by auto
  show ?thesis unfolding bag_next_refilled[OF True assms] bag_next_nonempty[OF ne] by blast
next
  case False
  show ?thesis unfolding bag_next_nonempty[OF False] by blast
qed

lemma bag_draws_succeed:
  "sb_items b \<noteq> [] \<Longrightarrow> \<exists>r. bag_draws n b g = Inr r"
proof (induction n arbitrary: b g)
  case 0
  then show ?case by simp
next
  case (Suc n)
  obtain x b' g' where n: "bag_next b g = Inr (x, b', g')"
    using bag_next_succeeds[OF Suc.prems] by blast
  have "sb_items b' \<noteq> []" using bag_next_items[OF n] Suc.prems by simp
  then obtain r where "bag_draws n b' g' = Inr r" using Suc.IH by blast
  then show ?case using n by (cases r) auto
qed

lemma bag_next_empty_set:
  "sb_items b = [] \<Longrightarrow> sb_bag b = [] \<Longrightarrow> bag_next b g = Inl IndexError"
  by (simp add: bag_next_def refill_def shuffle_def pop_def)

lemma init_empty: "ShuffleBag_init [] g = (\<lparr>sb_items = [], sb_bag = []\<rparr>, g)"
  by (simp add: ShuffleBag_init_def refill_def shuffle_def)

lemma bag_cycle:
  assumes "sb_items b \<noteq> []" "sb_bag b = [] \<or> mset (sb_bag b) = mset (sb_items b)"
  shows "\<exists>xs b' g'. bag_draws (length (sb_items b)) b g = Inr (xs, b', g')
           \<and> mset xs = mset (sb_items b) \<and> sb_items b' = sb_items b \<and> sb_bag b' = []"
proof (cases "sb_bag b = []")
  case True
  let ?b1 = "fst (refill b g)" and ?g1 = "snd (refill b g)"
  have m: "mset (sb_bag ?b1) = mset (sb_items b)" by (rule refill_bag)
  then have len: "length (sb_bag ?b1) = length (sb_items b)" by (metis size_mset)
  have "bag_draws (length (sb_items b)) b g = bag_draws (length (sb_items b)) ?b1 ?g1"
    using bag_draws_refilled[OF True assms(1)] assms(1) by simp
  also have "\<dots> = Inr (rev (sb_bag ?b1), ?b1\<lparr>sb_bag := []\<rparr>, ?g1)"
    using bag_draws_full[of ?b1 "sb_bag ?b1" ?g1] len by simp
  finally show ?thesis using m refill_items[of b g] by simp
next
  case False
  then have m: "mset (sb_bag b) = mset (sb_items b)" using assms(2) by simp
  then have len: "length (sb_bag b) = length (sb_items b)" by (metis size_mset)
  have "bag_draws (length (sb_items b)) b g = Inr (rev (sb_bag b), b\<lparr>sb_bag := []\<rparr>, g)"
    using bag_draws_full[of b "sb_bag b" g] len by simp
  then show ?thesis using m by simp
qed

text \<open>Claim C2. A refill boundary is a bag state that is empty (the next call refills) or
  holds a full shuffle of the items (as right after construction). For a bag over a non-empty
  item list, the \<open>k = len(items)\<close> consecutive calls of \<open>next()\<close> that start at a refill
  boundary all return, and the labels returned are a permutation of the items: each label as
  often as it occurs there, so exactly once when the items are distinct. The calls end at a
  refill boundary again. A call on a non-empty bag pops the last label and neither refills nor
  touches the random source: the bag refills only when it is empty. Construction yields a full
  shuffle of the items.\<close>

theorem shuffle_bag_cycle:
  "(sb_items b \<noteq> [] \<and> (sb_bag b = [] \<or> mset (sb_bag b) = mset (sb_items b)) \<longrightarrow>
      (\<exists>xs b' g'. bag_draws (length (sb_items b)) b g = Inr (xs, b', g')
          \<and> mset xs = mset (sb_items b)
          \<and> (distinct (sb_items b) \<longrightarrow> distinct xs \<and> set xs = set (sb_items b))
          \<and> sb_items b' = sb_items b \<and> sb_bag b' = []))
   \<and> (sb_bag c \<noteq> [] \<longrightarrow>
        bag_next c h = Inr (last (sb_bag c), c\<lparr>sb_bag := butlast (sb_bag c)\<rparr>, h))
   \<and> sb_items (fst (ShuffleBag_init its g)) = its
   \<and> mset (sb_bag (fst (ShuffleBag_init its g))) = mset its"
proof -
  have a: "\<exists>xs b' g'. bag_draws (length (sb_items b)) b g = Inr (xs, b', g')
          \<and> mset xs = mset (sb_items b)
          \<and> (distinct (sb_items b) \<longrightarrow> distinct xs \<and> set xs = set (sb_items b))
          \<and> sb_items b' = sb_items b \<and> sb_bag b' = []"
    if h: "sb_items b \<noteq> [] \<and> (sb_bag b = [] \<or> mset (sb_bag b) = mset (sb_items b))"
  proof -
    obtain xs b' g' where r: "bag_draws (length (sb_items b)) b g = Inr (xs, b', g')"
      "mset xs = mset (sb_items b)" "sb_items b' = sb_items b" "sb_bag b' = []"
      using bag_cycle[of b g] h by blast
    have "distinct (sb_items b) \<longrightarrow> distinct xs \<and> set xs = set (sb_items b)"
      using r(2) by (metis mset_eq_imp_distinct_iff mset_eq_setD)
    then show ?thesis using r by blast
  qed
  show ?thesis using a bag_next_nonempty[of c h] init_items[of its g] init_bag[of its g]
    by blast
qed

text \<open>Claim C6, as amended. Constructing a shuffle bag never raises, also for the empty
  target set, where it yields the bag with no items. Any number of draws from a bag constructed
  over a non-empty target set returns without an exception. A draw from the bag constructed over
  the empty target set raises IndexError: the empty set fails at draw time.\<close>

theorem scheduler_empty_target_set:
  "(its \<noteq> [] \<longrightarrow>
      (\<exists>r. bag_draws n (fst (ShuffleBag_init its g)) (snd (ShuffleBag_init its g)) = Inr r))
   \<and> ShuffleBag_init [] g = (\<lparr>sb_items = [], sb_bag = []\<rparr>, g)
   \<and> bag_next (fst (ShuffleBag_init [] g)) (snd (ShuffleBag_init [] g)) = Inl IndexError"
proof -
  have "its \<noteq> [] \<longrightarrow>
      (\<exists>r. bag_draws n (fst (ShuffleBag_init its g)) (snd (ShuffleBag_init its g)) = Inr r)"
    using bag_draws_succeed[of "fst (ShuffleBag_init its g)"] init_items[of its g] by simp
  then show ?thesis using init_empty[of g] bag_next_empty_set by simp
qed

text \<open>Claim C2 at a three-label bag standing at a refill boundary, and at a bag
  with two labels left.\<close>

theorem shuffle_bag_cycle_witness:
  "sb_items \<lparr>sb_items = [''A'', ''B'', ''X''], sb_bag = []\<rparr> \<noteq> []
   \<and> sb_bag \<lparr>sb_items = [''A'', ''B'', ''X''], sb_bag = []\<rparr> = []
   \<and> (\<exists>xs b' g'.
         bag_draws (length (sb_items \<lparr>sb_items = [''A'', ''B'', ''X''], sb_bag = []\<rparr>))
           \<lparr>sb_items = [''A'', ''B'', ''X''], sb_bag = []\<rparr> \<lparr>src = id, pos = 0\<rparr>
           = Inr (xs, b', g')
         \<and> mset xs = mset (sb_items \<lparr>sb_items = [''A'', ''B'', ''X''], sb_bag = []\<rparr>)
         \<and> sb_bag b' = [])
   \<and> sb_bag \<lparr>sb_items = [''A'', ''B''], sb_bag = [''B'', ''A'']\<rparr> \<noteq> []
   \<and> bag_next \<lparr>sb_items = [''A'', ''B''], sb_bag = [''B'', ''A'']\<rparr> \<lparr>src = id, pos = 0\<rparr>
       = Inr (last (sb_bag \<lparr>sb_items = [''A'', ''B''], sb_bag = [''B'', ''A'']\<rparr>),
              \<lparr>sb_items = [''A'', ''B''], sb_bag = [''B'', ''A'']\<rparr>
                \<lparr>sb_bag := butlast (sb_bag \<lparr>sb_items = [''A'', ''B''], sb_bag = [''B'', ''A'']\<rparr>)\<rparr>,
              \<lparr>src = id, pos = 0\<rparr>)"
proof -
  let ?c = "\<lparr>sb_items = [''A'', ''B''], sb_bag = [''B'', ''A'']\<rparr>"
  have h3: "sb_bag ?c \<noteq> []" by simp
  have n: "bag_next ?c \<lparr>src = id, pos = 0\<rparr>
       = Inr (last (sb_bag ?c), ?c\<lparr>sb_bag := butlast (sb_bag ?c)\<rparr>, \<lparr>src = id, pos = 0\<rparr>)"
    by (rule shuffle_bag_cycle[of _ _ ?c "\<lparr>src = id, pos = 0\<rparr>" "[]",
          THEN conjunct2, THEN conjunct1, THEN mp, OF h3])
  let ?b = "\<lparr>sb_items = [''A'', ''B'', ''X''], sb_bag = []\<rparr>"
  let ?g = "\<lparr>src = id, pos = 0\<rparr>"
  have h1: "sb_items ?b \<noteq> []" by simp
  have h2: "sb_bag ?b = []" by simp
  have h: "sb_items ?b \<noteq> [] \<and> (sb_bag ?b = [] \<or> mset (sb_bag ?b) = mset (sb_items ?b))"
    by (intro conjI disjI1 h1 h2)
  have "\<exists>xs b' g'. bag_draws (length (sb_items ?b)) ?b ?g = Inr (xs, b', g')
          \<and> mset xs = mset (sb_items ?b)
          \<and> (distinct (sb_items ?b) \<longrightarrow> distinct xs \<and> set xs = set (sb_items ?b))
          \<and> sb_items b' = sb_items ?b \<and> sb_bag b' = []"
    by (rule shuffle_bag_cycle[of ?b ?g _ _ "[]", THEN conjunct1, THEN mp, OF h])
  then have "\<exists>xs b' g'. bag_draws (length (sb_items ?b)) ?b ?g = Inr (xs, b', g')
          \<and> mset xs = mset (sb_items ?b) \<and> sb_bag b' = []"
    by blast
  then show ?thesis by (intro conjI h1 h2 h3 n)
qed

text \<open>Claim C6 (amended) at a two-label target set and five draws.\<close>

theorem scheduler_empty_target_set_witness:
  "[''A'', ''B''] \<noteq> []
   \<and> (\<exists>r. bag_draws 5 (fst (ShuffleBag_init [''A'', ''B''] \<lparr>src = id, pos = 0\<rparr>))
                       (snd (ShuffleBag_init [''A'', ''B''] \<lparr>src = id, pos = 0\<rparr>)) = Inr r)"
proof -
  have h: "[''A'', ''B''] \<noteq> ([] :: label list)" by simp
  have "\<exists>r. bag_draws 5 (fst (ShuffleBag_init [''A'', ''B''] \<lparr>src = id, pos = 0\<rparr>))
                       (snd (ShuffleBag_init [''A'', ''B''] \<lparr>src = id, pos = 0\<rparr>)) = Inr r"
    by (rule scheduler_empty_target_set[of "[''A'', ''B'']" 5 "\<lparr>src = id, pos = 0\<rparr>",
          THEN conjunct1, THEN mp, OF h])
  then show ?thesis by (intro conjI h)
qed

text \<open>Claim C6 as stated fails: \<open>ShuffleBag([])\<close> is constructed
  without an error, and the first \<open>next()\<close> on it raises IndexError.\<close>

theorem scheduler_empty_target_set_counterexample:
  "ShuffleBag_init [] \<lparr>src = id, pos = 0\<rparr> = (\<lparr>sb_items = [], sb_bag = []\<rparr>, \<lparr>src = id, pos = 0\<rparr>)
   \<and> bag_next \<lparr>sb_items = [], sb_bag = []\<rparr> \<lparr>src = id, pos = 0\<rparr> = Inl IndexError"
  by (simp add: ShuffleBag_init_def bag_next_def refill_def shuffle_def pop_def)

section \<open>Verification: the frame loop of v2\<close>

lemma random_unit_range: "0 \<le> fst (random_unit g) \<and> fst (random_unit g) < 1"
proof -
  have "src g (pos g) mod 2 ^ 53 < (2::nat) ^ 53" by simp
  then have "real (src g (pos g) mod 2 ^ 53) < real ((2::nat) ^ 53)" by (rule less_imp_of_nat_less)
  then show ?thesis by (simp add: random_unit_def)
qed

lemma uniform_range:
  assumes "a \<le> b"
  shows "a \<le> fst (uniform a b g) \<and> fst (uniform a b g) \<le> b"
proof -
  let ?u = "fst (random_unit g)"
  have u: "0 \<le> ?u" "?u \<le> 1" using random_unit_range[of g] by auto
  have f: "fst (uniform a b g) = a + (b - a) * ?u" by (simp add: uniform_def split_def Let_def)
  have "0 \<le> (b - a) * ?u" using assms u by simp
  moreover have "(b - a) * ?u \<le> (b - a) * 1" using assms u by (intro mult_left_mono) auto
  ultimately show ?thesis unfolding f by simp
qed

lemma record_press_wrong:
  assumes "lbl \<noteq> target_btn s"
  shows "record_press lbl now s =
    Inr (s\<lparr>stats := stats s @
                   [\<lparr>target = target_btn s, pressed = Some lbl,
                     reaction_s = (case prompt_shown_t s of
                  None \<Rightarrow> None
                | Some t \<Rightarrow> if t \<noteq> 0 then Some (now - t) else None), correct = False\<rparr>],
                 last_feedback :=
                   (case (case prompt_shown_t s of
                  None \<Rightarrow> None
                | Some t \<Rightarrow> if t \<noteq> 0 then Some (now - t) else None) of
                      Some r \<Rightarrow> FbWrong lbl (r * 1000)
                    | None \<Rightarrow> FbInput),
                 last_feedback_t := now\<rparr>)"
  using assms by (simp add: record_press_def Let_def split: option.splits)


lemma record_press_correct_fails:
  assumes "bag_next (bag s) (snd (uniform (fst DELAY_RANGE_S) (snd DELAY_RANGE_S) (gen s))) = Inl e"
  shows "record_press (target_btn s) now s = Inl e"
  using assms by (simp add: record_press_def Let_def split_def split: option.splits)


lemma record_press_armed:
  "record_press lbl now s = Inr s' \<Longrightarrow> trigger_armed s' = trigger_armed s"
  by (auto simp: record_press_def Let_def split_def split: if_splits sum.splits)

lemma record_press_stats:
  "record_press lbl now s = Inr s' \<Longrightarrow>
   stats s' = stats s @ [\<lparr>target = target_btn s, pressed = Some lbl,
       reaction_s = (case prompt_shown_t s of None \<Rightarrow> None
                     | Some t \<Rightarrow> if t \<noteq> 0 then Some (now - t) else None),
       correct = (lbl = target_btn s)\<rparr>]"
  by (auto simp: record_press_def Let_def split_def split: if_splits sum.splits)


lemma record_press_clk:
  "record_press lbl now s = Inr s' \<Longrightarrow> clk s' = clk s \<and> running s' = running s"
  by (auto simp: record_press_def Let_def split_def split: if_splits sum.splits)

lemma start_summary_ok:
  "\<exists>ls. start_summary s = Inr (s\<lparr>phase := Summary, summary_lines_var := ls, saved := saved s @ [ls]\<rparr>)"
proof -
  obtain ls where "summary_text (stats s) = Inr ls"
    using summary_text_for_ok[of ALL_TARGETS "stats s"] unfolding summary_text_def by blast
  then show ?thesis by (intro exI[of _ ls]) (simp add: start_summary_def)
qed

lemma v2_joy_inert:
  "phase s \<noteq> Prompt \<Longrightarrow> v2_handle_event now (JOYBUTTONDOWN joy idx) s = Inr s"
  by simp

lemma v2_poll_inert:
  "phase s \<noteq> Prompt \<Longrightarrow> v2_poll now axes s = Inr s"
  by (simp add: v2_poll_def)

lemma btn_index_to_label_ran:
  "btn_index_to_label idx = Some lbl \<Longrightarrow> lbl \<in> {''A'', ''B'', ''X'', ''Y'', ''LB'', ''RB''}"
  by (auto simp: btn_index_to_label_def DEFAULT_XBOX_FACE_def DEFAULT_XBOX_BUMPERS_def map_add_def
           split: if_splits option.splits)

lemma v2_handle_event_armed:
  assumes "v2_handle_event now e s = Inr s'"
  shows "trigger_armed s' = trigger_armed s"
proof (cases e)
  case QUIT
  then show ?thesis using assms by auto
next
  case (KEYDOWN k)
  obtain ls where ss: "start_summary s = Inr (s\<lparr>phase := Summary, summary_lines_var := ls, saved := saved s @ [ls]\<rparr>)"
    using start_summary_ok by blast
  show ?thesis using assms KEYDOWN ss by (auto split: if_splits)
next
  case (JOYBUTTONDOWN joy idx)
  obtain ls where ss: "start_summary s = Inr (s\<lparr>phase := Summary, summary_lines_var := ls, saved := saved s @ [ls]\<rparr>)"
    using start_summary_ok by blast
  show ?thesis using assms JOYBUTTONDOWN ss record_press_armed
    by (auto split: if_splits option.splits)
next
  case OTHER_EVENT
  then show ?thesis using assms by auto
qed

lemma v2_handle_event_presses:
  assumes "v2_handle_event now e s = Inr s'" and "name \<in> snd ` set TRIGGER_AXES"
  shows "filter (\<lambda>a. pressed a = Some name) (stats s') = filter (\<lambda>a. pressed a = Some name) (stats s)"
proof (cases e)
  case QUIT
  then show ?thesis using assms by auto
next
  case (KEYDOWN k)
  obtain ls where ss: "start_summary s = Inr (s\<lparr>phase := Summary, summary_lines_var := ls, saved := saved s @ [ls]\<rparr>)"
    using start_summary_ok by blast
  show ?thesis using assms KEYDOWN ss by (auto split: if_splits)
next
  case (JOYBUTTONDOWN joy idx)
  obtain ls where ss: "start_summary s = Inr (s\<lparr>phase := Summary, summary_lines_var := ls, saved := saved s @ [ls]\<rparr>)"
    using start_summary_ok by blast
  show ?thesis
  proof (cases "phase s = Prompt \<and> idx \<noteq> 7 \<and> (\<exists>lbl. btn_index_to_label idx = Some lbl \<and> lbl \<noteq> [])")
    case True
    then obtain lbl where l: "btn_index_to_label idx = Some lbl" "lbl \<noteq> []" by blast
    have rp: "record_press lbl now s = Inr s'" using assms(1) JOYBUTTONDOWN True l by simp
    have "lbl \<noteq> name" using btn_index_to_label_ran[OF l(1)] assms(2)
      by (auto simp: TRIGGER_AXES_def)
    then show ?thesis using record_press_stats[OF rp] by simp
  next
    case False
    then show ?thesis using assms(1) JOYBUTTONDOWN ss by (auto split: if_splits option.splits)
  qed
next
  case OTHER_EVENT
  then show ?thesis using assms by auto
qed

lemma v2_events_armed:
  "v2_events now es s = Inr s' \<Longrightarrow> trigger_armed s' = trigger_armed s"
proof (induction es arbitrary: s)
  case Nil
  then show ?case by simp
next
  case (Cons e es)
  then obtain s1 where h: "v2_handle_event now e s = Inr s1" "v2_events now es s1 = Inr s'"
    by (auto split: sum.splits)
  show ?case using Cons.IH[OF h(2)] v2_handle_event_armed[OF h(1)] by simp
qed

lemma v2_events_presses:
  "v2_events now es s = Inr s' \<Longrightarrow> name \<in> snd ` set TRIGGER_AXES \<Longrightarrow>
   filter (\<lambda>a. pressed a = Some name) (stats s') = filter (\<lambda>a. pressed a = Some name) (stats s)"
proof (induction es arbitrary: s)
  case Nil
  then show ?case by simp
next
  case (Cons e es)
  then obtain s1 where h: "v2_handle_event now e s = Inr s1" "v2_events now es s1 = Inr s'"
    by (auto split: sum.splits)
  show ?case using Cons.IH[OF h(2) Cons.prems(2)] v2_handle_event_presses[OF h(1) Cons.prems(2)] by simp
qed

lemma v2_poll_axis_disarmed:
  assumes "trigger_armed s name = Some False" and "ai < length axes \<longrightarrow> TRIGGER_RELEASE \<le> axes ! ai"
  shows "v2_poll_axis now axes (ai, name) s = Inr s"
  using assms by (auto simp: v2_poll_axis_def Let_def)

lemma v2_poll_axis_fire:
  assumes "trigger_armed s name = Some True" and "ai < length axes" and "TRIGGER_THRESHOLD < axes ! ai"
  shows "v2_poll_axis now axes (ai, name) s =
         record_press name now (s\<lparr>trigger_armed := (trigger_armed s)(name \<mapsto> False)\<rparr>)"
  using assms
  by (auto simp: v2_poll_axis_def Let_def TRIGGER_THRESHOLD_def TRIGGER_RELEASE_def split: sum.splits)

lemma v2_poll_axis_other:
  assumes "v2_poll_axis now axes (ai, name) s = Inr s'" and "name' \<noteq> name"
  shows "trigger_armed s' name' = trigger_armed s name'
       \<and> filter (\<lambda>a. pressed a = Some name') (stats s') = filter (\<lambda>a. pressed a = Some name') (stats s)"
proof (cases "ai < length axes \<and> TRIGGER_THRESHOLD < axes ! ai \<and> trigger_armed s name = Some True")
  case True
  then have "record_press name now (s\<lparr>trigger_armed := (trigger_armed s)(name \<mapsto> False)\<rparr>) = Inr s'"
    using assms(1) v2_poll_axis_fire by simp
  from record_press_armed[OF this] record_press_stats[OF this] assms(2)
  show ?thesis by simp
next
  case False
  then show ?thesis using assms
    by (auto simp: v2_poll_axis_def Let_def split: if_splits option.splits sum.splits)
qed

lemma v2_progress_cases:
  "v2_progress now s = s \<or>
   (phase s = Delay \<and> delay_until s \<le> now \<and>
    v2_progress now s =
      s\<lparr>phase := Prompt, prompt_shown_t := Some (readings (clk s) (reads (clk s))),
        clk := (clk s)\<lparr>reads := reads (clk s) + 1\<rparr>,
        trigger_armed := (\<lambda>k. map_option (\<lambda>a. True) (trigger_armed s k))\<rparr>)"
  by (simp add: v2_progress_def perf_counter_def)

lemma v2_handle_event_clk:
  assumes "v2_handle_event now e s = Inr s'"
  shows "clk s' = clk s"
proof -
  obtain ls where ss: "start_summary s = Inr (s\<lparr>phase := Summary, summary_lines_var := ls, saved := saved s @ [ls]\<rparr>)"
    using start_summary_ok by blast
  show ?thesis using assms ss record_press_clk
    by (cases e) (auto split: if_splits option.splits)
qed

lemma v2_events_clk:
  "v2_events now es s = Inr s' \<Longrightarrow> clk s' = clk s"
proof (induction es arbitrary: s)
  case Nil
  then show ?case by simp
next
  case (Cons e es)
  then obtain s1 where h: "v2_handle_event now e s = Inr s1" "v2_events now es s1 = Inr s'"
    by (auto split: sum.splits)
  show ?case using Cons.IH[OF h(2)] v2_handle_event_clk[OF h(1)] by simp
qed

lemma v2_poll_axis_clk:
  assumes "v2_poll_axis now axes an s = Inr s'"
  shows "clk s' = clk s"
proof (cases "fst an < length axes \<and> TRIGGER_THRESHOLD < axes ! fst an \<and> trigger_armed s (snd an) = Some True")
  case True
  then have "record_press (snd an) now (s\<lparr>trigger_armed := (trigger_armed s)(snd an \<mapsto> False)\<rparr>) = Inr s'"
    using assms v2_poll_axis_fire[of s "snd an" "fst an" axes now] by simp
  from record_press_clk[OF this] show ?thesis by simp
next
  case False
  then show ?thesis using assms
    by (auto simp: v2_poll_axis_def Let_def split: if_splits option.splits sum.splits)
qed

lemma v2_poll_clk:
  assumes "v2_poll now axes s = Inr s'"
  shows "clk s' = clk s"
proof (cases "phase s = Prompt")
  case True
  then obtain s1 where h: "v2_poll_axis now axes (4, ''LT'') s = Inr s1"
      "v2_poll_axis now axes (5, ''RT'') s1 = Inr s'"
    using assms by (auto simp: v2_poll_def TRIGGER_AXES_def split: sum.splits)
  show ?thesis using v2_poll_axis_clk[OF h(1)] v2_poll_axis_clk[OF h(2)] by simp
next
  case False
  then show ?thesis using assms by (simp add: v2_poll_def)
qed

lemma v2_poll_disarmed:
  assumes "(ai, name) \<in> set TRIGGER_AXES" and "trigger_armed s name = Some False"
    and "ai < length axes \<longrightarrow> TRIGGER_RELEASE \<le> axes ! ai"
    and "v2_poll now axes s = Inr s'"
  shows "trigger_armed s' name = Some False
       \<and> filter (\<lambda>a. pressed a = Some name) (stats s') = filter (\<lambda>a. pressed a = Some name) (stats s)"
proof (cases "phase s = Prompt")
  case True
  then obtain s1 where h: "v2_poll_axis now axes (4, ''LT'') s = Inr s1"
      "v2_poll_axis now axes (5, ''RT'') s1 = Inr s'"
    using assms(4) by (auto simp: v2_poll_def TRIGGER_AXES_def split: sum.splits)
  from assms(1) consider "ai = 4" "name = ''LT''" | "ai = 5" "name = ''RT''"
    by (auto simp: TRIGGER_AXES_def)
  then show ?thesis
  proof cases
    case 1
    have "v2_poll_axis now axes (4, ''LT'') s = Inr s"
      using v2_poll_axis_disarmed[of s name ai axes now] assms(2,3) 1 by simp
    then have "s1 = s" using h(1) by simp
    then show ?thesis using v2_poll_axis_other[OF h(2), of name] assms(2) 1 by simp
  next
    case 2
    have o: "trigger_armed s1 name = Some False"
       "filter (\<lambda>a. pressed a = Some name) (stats s1) = filter (\<lambda>a. pressed a = Some name) (stats s)"
      using v2_poll_axis_other[OF h(1), of name] assms(2) 2 by simp_all
    have "v2_poll_axis now axes (5, ''RT'') s1 = Inr s1"
      using v2_poll_axis_disarmed[of s1 name ai axes now] o(1) assms(3) 2 by simp
    then have "s' = s1" using h(2) by simp
    then show ?thesis using o by simp
  qed
next
  case False
  then show ?thesis using assms by (simp add: v2_poll_def)
qed

lemma v2_tick_unfold:
  assumes "v2_tick inp s = Inr s'"
  shows "\<exists>s1 s2. v2_events (readings (clk s) (reads (clk s))) (fst inp)
                   (s\<lparr>clk := (clk s)\<lparr>reads := reads (clk s) + 1\<rparr>\<rparr>) = Inr s1
          \<and> v2_poll (readings (clk s) (reads (clk s))) (snd inp) s1 = Inr s2
          \<and> s' = v2_progress (readings (clk s) (reads (clk s))) s2"
  using assms by (auto simp: v2_tick_def perf_counter_def split: sum.splits)

lemma v2_tick_disarmed:
  assumes "(ai, name) \<in> set TRIGGER_AXES" and "trigger_armed s name = Some False"
    and "ai < length (snd inp) \<longrightarrow> TRIGGER_RELEASE \<le> snd inp ! ai"
    and "v2_tick inp s = Inr s'"
  shows "filter (\<lambda>a. pressed a = Some name) (stats s') = filter (\<lambda>a. pressed a = Some name) (stats s)
       \<and> (trigger_armed s' name = Some False
          \<or> (phase s' = Prompt \<and> trigger_armed s' name = Some True
              \<and> prompt_shown_t s' = Some (readings (clk s) (reads (clk s) + 1))))"
proof -
  let ?now = "readings (clk s) (reads (clk s))"
  let ?s0 = "s\<lparr>clk := (clk s)\<lparr>reads := reads (clk s) + 1\<rparr>\<rparr>"
  obtain s1 s2 where h: "v2_events ?now (fst inp) ?s0 = Inr s1" "v2_poll ?now (snd inp) s1 = Inr s2"
      "s' = v2_progress ?now s2"
    using v2_tick_unfold[OF assms(4)] by blast
  have nm: "name \<in> snd ` set TRIGGER_AXES" using assms(1) by force
  have a1: "trigger_armed s1 name = Some False" using v2_events_armed[OF h(1)] assms(2) by simp
  have p1: "filter (\<lambda>a. pressed a = Some name) (stats s1) = filter (\<lambda>a. pressed a = Some name) (stats s)"
    using v2_events_presses[OF h(1) nm] by simp
  have c1: "clk s1 = (clk s)\<lparr>reads := reads (clk s) + 1\<rparr>" using v2_events_clk[OF h(1)] by simp
  have a2: "trigger_armed s2 name = Some False"
    and p2: "filter (\<lambda>a. pressed a = Some name) (stats s2) = filter (\<lambda>a. pressed a = Some name) (stats s1)"
    using v2_poll_disarmed[OF assms(1) a1 assms(3) h(2)] by simp_all
  have c2: "clk s2 = (clk s)\<lparr>reads := reads (clk s) + 1\<rparr>" using v2_poll_clk[OF h(2)] c1 by simp
  from v2_progress_cases[of ?now s2] show ?thesis
  proof
    assume "v2_progress ?now s2 = s2"
    then show ?thesis using h(3) a2 p2 p1 by simp
  next
    assume "phase s2 = Delay \<and> delay_until s2 \<le> ?now \<and>
    v2_progress ?now s2 =
      s2\<lparr>phase := Prompt, prompt_shown_t := Some (readings (clk s2) (reads (clk s2))),
        clk := (clk s2)\<lparr>reads := reads (clk s2) + 1\<rparr>,
        trigger_armed := (\<lambda>k. map_option (\<lambda>a. True) (trigger_armed s2 k))\<rparr>"
    then show ?thesis using h(3) a2 p2 p1 c2 by simp
  qed
qed

lemma v2_handle_event_not_prompt:
  assumes "phase s \<noteq> Prompt" and "v2_handle_event now e s = Inr s'"
  shows "phase s' \<noteq> Prompt \<and> stats s' = stats s"
proof -
  obtain ls where ss: "start_summary s = Inr (s\<lparr>phase := Summary, summary_lines_var := ls, saved := saved s @ [ls]\<rparr>)"
    using start_summary_ok by blast
  show ?thesis using assms ss by (cases e) (auto split: if_splits)
qed

lemma v2_events_not_prompt:
  "phase s \<noteq> Prompt \<Longrightarrow> v2_events now es s = Inr s' \<Longrightarrow> phase s' \<noteq> Prompt \<and> stats s' = stats s"
proof (induction es arbitrary: s)
  case Nil
  then show ?case by simp
next
  case (Cons e es)
  then obtain s1 where h: "v2_handle_event now e s = Inr s1" "v2_events now es s1 = Inr s'"
    by (auto split: sum.splits)
  note a = v2_handle_event_not_prompt[OF Cons.prems(1) h(1)]
  show ?case using Cons.IH[OF conjunct1[OF a] h(2)] a by simp
qed

lemma v2_tick_new_prompt:
  assumes "phase s \<noteq> Prompt" and "v2_tick inp s = Inr s'" and "phase s' = Prompt"
  shows "trigger_armed s' = (\<lambda>k. map_option (\<lambda>a. True) (trigger_armed s k)) \<and> stats s' = stats s"
proof -
  let ?now = "readings (clk s) (reads (clk s))"
  let ?s0 = "s\<lparr>clk := (clk s)\<lparr>reads := reads (clk s) + 1\<rparr>\<rparr>"
  obtain s1 s2 where h: "v2_events ?now (fst inp) ?s0 = Inr s1" "v2_poll ?now (snd inp) s1 = Inr s2"
      "s' = v2_progress ?now s2"
    using v2_tick_unfold[OF assms(2)] by blast
  have p0: "phase ?s0 \<noteq> Prompt" using assms(1) by simp
  note e = v2_events_not_prompt[OF p0 h(1)]
  have s2: "s2 = s1" using h(2) e by (simp add: v2_poll_def)
  have a1: "trigger_armed s1 = trigger_armed s" using v2_events_armed[OF h(1)] by simp
  from v2_progress_cases[of ?now s2] show ?thesis
  proof
    assume "v2_progress ?now s2 = s2"
    then show ?thesis using h(3) s2 e assms(3) by simp
  next
    assume "phase s2 = Delay \<and> delay_until s2 \<le> ?now \<and>
    v2_progress ?now s2 =
      s2\<lparr>phase := Prompt, prompt_shown_t := Some (readings (clk s2) (reads (clk s2))),
        clk := (clk s2)\<lparr>reads := reads (clk s2) + 1\<rparr>,
        trigger_armed := (\<lambda>k. map_option (\<lambda>a. True) (trigger_armed s2 k))\<rparr>"
    then show ?thesis using h(3) s2 a1 e by simp
  qed
qed

lemma v2_progress_stats: "stats (v2_progress now s) = stats s"
  using v2_progress_cases[of now s] by auto

lemma v2_poll_fires:
  assumes "(ai, name) \<in> set TRIGGER_AXES" and "phase s = Prompt"
    and "trigger_armed s name = Some True"
    and "ai < length axes" and "TRIGGER_THRESHOLD < axes ! ai"
    and "v2_poll now axes s = Inr s'"
  shows "length (filter (\<lambda>a. pressed a = Some name) (stats s'))
         = length (filter (\<lambda>a. pressed a = Some name) (stats s)) + 1"
proof -
  obtain s1 where h: "v2_poll_axis now axes (4, ''LT'') s = Inr s1"
      "v2_poll_axis now axes (5, ''RT'') s1 = Inr s'"
    using assms(2,6) by (auto simp: v2_poll_def TRIGGER_AXES_def split: sum.splits)
  from assms(1) consider "ai = 4" "name = ''LT''" | "ai = 5" "name = ''RT''"
    by (auto simp: TRIGGER_AXES_def)
  then show ?thesis
  proof cases
    case 1
    have "record_press name now (s\<lparr>trigger_armed := (trigger_armed s)(name \<mapsto> False)\<rparr>) = Inr s1"
      using v2_poll_axis_fire[OF assms(3,4,5), of now] h(1) 1 by simp
    from record_press_stats[OF this]
    have "length (filter (\<lambda>a. pressed a = Some name) (stats s1))
         = length (filter (\<lambda>a. pressed a = Some name) (stats s)) + 1" by simp
    then show ?thesis using v2_poll_axis_other[OF h(2), of name] 1 by simp
  next
    case 2
    have o: "trigger_armed s1 name = Some True"
       "filter (\<lambda>a. pressed a = Some name) (stats s1) = filter (\<lambda>a. pressed a = Some name) (stats s)"
      using v2_poll_axis_other[OF h(1), of name] assms(3) 2 by simp_all
    have "record_press name now (s1\<lparr>trigger_armed := (trigger_armed s1)(name \<mapsto> False)\<rparr>) = Inr s'"
      using v2_poll_axis_fire[OF o(1) assms(4,5), of now] h(2) 2 by simp
    from record_press_stats[OF this] show ?thesis using o(2) by simp
  qed
qed

lemma v2_tick_fires:
  assumes "(ai, name) \<in> set TRIGGER_AXES" and "phase s = Prompt"
    and "trigger_armed s name = Some True"
    and "ai < length axes" and "TRIGGER_THRESHOLD < axes ! ai"
    and "v2_tick ([], axes) s = Inr s'"
  shows "length (filter (\<lambda>a. pressed a = Some name) (stats s'))
         = length (filter (\<lambda>a. pressed a = Some name) (stats s)) + 1"
proof -
  let ?now = "readings (clk s) (reads (clk s))"
  let ?s0 = "s\<lparr>clk := (clk s)\<lparr>reads := reads (clk s) + 1\<rparr>\<rparr>"
  obtain s2 where h: "v2_poll ?now axes ?s0 = Inr s2" "s' = v2_progress ?now s2"
    using v2_tick_unfold[OF assms(6)] by auto
  have "length (filter (\<lambda>a. pressed a = Some name) (stats s2))
         = length (filter (\<lambda>a. pressed a = Some name) (stats ?s0)) + 1"
    using v2_poll_fires[OF assms(1) _ _ assms(4,5) h(1)] assms(2,3) by simp
  then show ?thesis using h(2) v2_progress_stats by simp
qed

text \<open>Claim C5, as amended. Whenever a frame makes a new prompt live, it arms every trigger,
  whatever the trigger's flag and position were. As a consequence a trigger that is past the
  press threshold in the first frame of the new prompt fires one press event in that frame,
  with no release in between.\<close>

theorem trigger_rearmed_on_new_prompt:
  assumes "(ai, name) \<in> set TRIGGER_AXES" and "phase s = Delay"
    and "trigger_armed s name = Some a"
    and "v2_tick inp s = Inr s1" and "phase s1 = Prompt"
    and "ai < length axes" and "TRIGGER_THRESHOLD < axes ! ai"
    and "v2_tick ([], axes) s1 = Inr s2"
  shows "trigger_armed s1 name = Some True
       \<and> stats s1 = stats s
       \<and> length (filter (\<lambda>a. pressed a = Some name) (stats s2))
           = length (filter (\<lambda>a. pressed a = Some name) (stats s)) + 1"
proof -
  have p: "phase s \<noteq> Prompt" using assms(2) by simp
  note n = v2_tick_new_prompt[OF p assms(4,5)]
  have a1: "trigger_armed s1 name = Some True" using n assms(3) by simp
  show ?thesis using a1 n v2_tick_fires[OF assms(1,5) a1 assms(6,7,8)] by simp
qed

lemmas v2_eval = v2_tick_def perf_counter_def v2_poll_def TRIGGER_AXES_def v2_poll_axis_def
        TRIGGER_THRESHOLD_def TRIGGER_RELEASE_def record_press_def uniform_def random_unit_def
        DELAY_RANGE_S_def bag_next_def pop_def v2_progress_def Let_def

lemma rearmed_frames_run:
  "\<exists>s1. v2_tick ([], [0, 0, 0, 0, 1, 0])
        \<lparr>clk = \<lparr>readings = real, reads = 3\<rparr>, gen = \<lparr>src = (\<lambda>n. 0), pos = 0\<rparr>, stats = [],
         phase = Delay, delay_until = 2, target_btn = ''LT'', prompt_shown_t = None,
         last_feedback = FbStart, last_feedback_t = 0, summary_lines_var = [], running = True,
         bag = \<lparr>sb_items = ALL_TARGETS, sb_bag = [''A'']\<rparr>,
         trigger_armed = [''LT'' \<mapsto> False, ''RT'' \<mapsto> True], saved = []\<rparr> = Inr s1
      \<and> phase s1 = Prompt \<and> (\<exists>s2. v2_tick ([], [0, 0, 0, 0, 1, 0]) s1 = Inr s2)"
  by (simp add: v2_eval)

text \<open>Claim C10. The frame below starts with the prompt for LT live and both triggers pressed
  past the threshold. Polling LT records the correct press and starts the waiting period; the
  loop over the trigger axes then goes on to RT, whose press is recorded as an attempt against
  the target that is not shown yet, without a latency, although the phase is no longer the
  live prompt.\<close>

theorem controller_input_outside_prompt:
  "map_sum id phase
     (v2_poll_axis 2 [0, 0, 0, 0, 1, 1] (4, ''LT'')
        \<lparr>clk = \<lparr>readings = real, reads = 3\<rparr>, gen = \<lparr>src = (\<lambda>n. 0), pos = 0\<rparr>, stats = [],
         phase = Prompt, delay_until = 0, target_btn = ''LT'', prompt_shown_t = Some 1,
         last_feedback = FbStart, last_feedback_t = 0, summary_lines_var = [], running = True,
         bag = \<lparr>sb_items = ALL_TARGETS, sb_bag = [''A'']\<rparr>,
         trigger_armed = [''LT'' \<mapsto> True, ''RT'' \<mapsto> True], saved = []\<rparr>) = Inr Delay
   \<and> map_sum id stats
     (v2_tick ([], [0, 0, 0, 0, 1, 1])
        \<lparr>clk = \<lparr>readings = real, reads = 2\<rparr>, gen = \<lparr>src = (\<lambda>n. 0), pos = 0\<rparr>, stats = [],
         phase = Prompt, delay_until = 0, target_btn = ''LT'', prompt_shown_t = Some 1,
         last_feedback = FbStart, last_feedback_t = 0, summary_lines_var = [], running = True,
         bag = \<lparr>sb_items = ALL_TARGETS, sb_bag = [''A'']\<rparr>,
         trigger_armed = [''LT'' \<mapsto> True, ''RT'' \<mapsto> True], saved = []\<rparr>)
   = Inr [\<lparr>target = ''LT'', pressed = Some ''LT'', reaction_s = Some 1, correct = True\<rparr>,
          \<lparr>target = ''A'', pressed = Some ''RT'', reaction_s = None, correct = False\<rparr>]"
  by (simp add: v2_eval)

text \<open>Claim C5 (amended) at a waiting period that is over, with LT disarmed by the previous
  trial and held at 1.0 in both frames.\<close>

theorem trigger_rearmed_on_new_prompt_witness:
  "(4, ''LT'') \<in> set TRIGGER_AXES \<and> 4 < length [0, 0, 0, 0, 1, 0 :: real]
   \<and> TRIGGER_THRESHOLD < [0, 0, 0, 0, 1, 0] ! 4
   \<and> (\<exists>s1 s2.
        v2_tick ([], [0, 0, 0, 0, 1, 0])
          \<lparr>clk = \<lparr>readings = real, reads = 3\<rparr>, gen = \<lparr>src = (\<lambda>n. 0), pos = 0\<rparr>, stats = [],
           phase = Delay, delay_until = 2, target_btn = ''LT'', prompt_shown_t = None,
           last_feedback = FbStart, last_feedback_t = 0, summary_lines_var = [], running = True,
           bag = \<lparr>sb_items = ALL_TARGETS, sb_bag = [''A'']\<rparr>,
           trigger_armed = [''LT'' \<mapsto> False, ''RT'' \<mapsto> True], saved = []\<rparr> = Inr s1
        \<and> phase s1 = Prompt
        \<and> v2_tick ([], [0, 0, 0, 0, 1, 0]) s1 = Inr s2
        \<and> trigger_armed s1 ''LT'' = Some True
        \<and> length (filter (\<lambda>a. pressed a = Some ''LT'') (stats s2)) = 1)"
proof -
  let ?s = "\<lparr>clk = \<lparr>readings = real, reads = 3\<rparr>, gen = \<lparr>src = (\<lambda>n. 0), pos = 0\<rparr>, stats = [],
           phase = Delay, delay_until = 2, target_btn = ''LT'', prompt_shown_t = None,
           last_feedback = FbStart, last_feedback_t = 0, summary_lines_var = [], running = True,
           bag = \<lparr>sb_items = ALL_TARGETS, sb_bag = [''A'']\<rparr>,
           trigger_armed = [''LT'' \<mapsto> False, ''RT'' \<mapsto> True], saved = []\<rparr>"
  let ?axes = "[0, 0, 0, 0, 1, 0 :: real]"
  have h1: "(4, ''LT'') \<in> set TRIGGER_AXES" by (simp add: TRIGGER_AXES_def)
  have h2: "phase ?s = Delay" by simp
  have h3: "trigger_armed ?s ''LT'' = Some False" by simp
  have h6: "4 < length ?axes" by simp
  have h7: "TRIGGER_THRESHOLD < ?axes ! 4" by (simp add: TRIGGER_THRESHOLD_def)
  obtain s1 s2 where h4: "v2_tick ([], ?axes) ?s = Inr s1" and h5: "phase s1 = Prompt"
      and h8: "v2_tick ([], ?axes) s1 = Inr s2"
    using rearmed_frames_run by blast
  have "trigger_armed s1 ''LT'' = Some True
       \<and> stats s1 = stats ?s
       \<and> length (filter (\<lambda>a. pressed a = Some ''LT'') (stats s2))
           = length (filter (\<lambda>a. pressed a = Some ''LT'') (stats ?s)) + 1"
    by (rule trigger_rearmed_on_new_prompt[OF h1 h2 h3 h4 h5 h6 h7 h8])
  then have "trigger_armed s1 ''LT'' = Some True"
     "length (filter (\<lambda>a. pressed a = Some ''LT'') (stats s2)) = 1" by simp_all
  then show ?thesis using h1 h6 h7 h4 h5 h8 by blast
qed

text \<open>Claim C4, as amended. The release threshold is below the press threshold. Polling a
  trigger fires a press event exactly when the trigger is armed and its value is above the
  press threshold, and firing disarms it. A disarmed trigger whose value is not below the
  release threshold fires nothing in a frame and is still disarmed at its end, unless that
  frame makes a new prompt live, which arms it again. A poll that finds the value below the
  release threshold fires nothing and arms the trigger.\<close>

theorem trigger_hysteresis:
  "TRIGGER_RELEASE < TRIGGER_THRESHOLD
   \<and> (trigger_armed s name = Some True \<and> ai < length axes \<and> TRIGGER_THRESHOLD < axes ! ai
        \<and> v2_poll_axis now axes (ai, name) s = Inr s'
      \<longrightarrow> trigger_armed s' name = Some False
          \<and> stats s' = stats s @ [\<lparr>target = target_btn s, pressed = Some name,
                reaction_s = (case prompt_shown_t s of None \<Rightarrow> None
                              | Some t \<Rightarrow> if t \<noteq> 0 then Some (now - t) else None),
                correct = (name = target_btn s)\<rparr>])
   \<and> (\<not> (trigger_armed s name = Some True \<and> ai < length axes \<and> TRIGGER_THRESHOLD < axes ! ai)
        \<and> v2_poll_axis now axes (ai, name) s = Inr s'
      \<longrightarrow> stats s' = stats s)
   \<and> ((ai, name) \<in> set TRIGGER_AXES \<and> trigger_armed s name = Some False
        \<and> (ai < length (snd inp) \<longrightarrow> TRIGGER_RELEASE \<le> snd inp ! ai)
        \<and> v2_tick inp s = Inr sn
      \<longrightarrow> filter (\<lambda>a. pressed a = Some name) (stats sn) = filter (\<lambda>a. pressed a = Some name) (stats s)
          \<and> (trigger_armed sn name = Some False
             \<or> (phase sn = Prompt \<and> trigger_armed sn name = Some True
                 \<and> prompt_shown_t sn = Some (readings (clk s) (reads (clk s) + 1)))))
   \<and> (ai < length axes \<and> axes ! ai < TRIGGER_RELEASE
        \<and> v2_poll_axis now axes (ai, name) s = Inr s'
      \<longrightarrow> trigger_armed s' name = Some True \<and> stats s' = stats s)"
proof -
  have a: "TRIGGER_RELEASE < TRIGGER_THRESHOLD"
    by (simp add: TRIGGER_RELEASE_def TRIGGER_THRESHOLD_def)
  have b: "trigger_armed s' name = Some False
          \<and> stats s' = stats s @ [\<lparr>target = target_btn s, pressed = Some name,
                reaction_s = (case prompt_shown_t s of None \<Rightarrow> None
                              | Some t \<Rightarrow> if t \<noteq> 0 then Some (now - t) else None),
                correct = (name = target_btn s)\<rparr>]"
    if h: "trigger_armed s name = Some True" "ai < length axes" "TRIGGER_THRESHOLD < axes ! ai"
      "v2_poll_axis now axes (ai, name) s = Inr s'"
  proof -
    have r: "record_press name now (s\<lparr>trigger_armed := (trigger_armed s)(name \<mapsto> False)\<rparr>) = Inr s'"
      using v2_poll_axis_fire[OF h(1,2,3), of now] h(4) by simp
    show ?thesis using record_press_armed[OF r] record_press_stats[OF r] by simp
  qed
  have c: "stats s' = stats s"
    if "\<not> (trigger_armed s name = Some True \<and> ai < length axes \<and> TRIGGER_THRESHOLD < axes ! ai)"
      "v2_poll_axis now axes (ai, name) s = Inr s'"
    using that by (auto simp: v2_poll_axis_def Let_def split: if_splits option.splits)
  have d: "trigger_armed s' name = Some True \<and> stats s' = stats s"
    if "ai < length axes" "axes ! ai < TRIGGER_RELEASE"
      "v2_poll_axis now axes (ai, name) s = Inr s'"
    using that
    by (auto simp: v2_poll_axis_def Let_def TRIGGER_THRESHOLD_def TRIGGER_RELEASE_def
             split: if_splits)
  show ?thesis using a b c d v2_tick_disarmed[of ai name s inp sn] by blast
qed

lemma poll_armed_runs:
  "\<exists>s'. v2_poll_axis 2 [0, 0, 0, 0, 1, 0] (4, ''LT'')
        \<lparr>clk = \<lparr>readings = real, reads = 3\<rparr>, gen = \<lparr>src = (\<lambda>n. 0), pos = 0\<rparr>, stats = [],
         phase = Prompt, delay_until = 0, target_btn = ''A'', prompt_shown_t = Some 1,
         last_feedback = FbStart, last_feedback_t = 0, summary_lines_var = [], running = True,
         bag = \<lparr>sb_items = ALL_TARGETS, sb_bag = [''B'']\<rparr>,
         trigger_armed = [''LT'' \<mapsto> True, ''RT'' \<mapsto> True], saved = []\<rparr> = Inr s'"
  by (simp add: v2_eval)

lemma poll_disarmed_runs:
  "\<exists>s'. v2_poll_axis 2 [0, 0, 0, 0, 1, 0] (4, ''LT'')
        \<lparr>clk = \<lparr>readings = real, reads = 3\<rparr>, gen = \<lparr>src = (\<lambda>n. 0), pos = 0\<rparr>, stats = [],
         phase = Prompt, delay_until = 0, target_btn = ''A'', prompt_shown_t = Some 1,
         last_feedback = FbStart, last_feedback_t = 0, summary_lines_var = [], running = True,
         bag = \<lparr>sb_items = ALL_TARGETS, sb_bag = [''B'']\<rparr>,
         trigger_armed = [''LT'' \<mapsto> False, ''RT'' \<mapsto> True], saved = []\<rparr> = Inr s'"
  by (simp add: v2_eval)

lemma frame_disarmed_runs:
  "\<exists>s'. v2_tick ([], [0, 0, 0, 0, 1, 0])
        \<lparr>clk = \<lparr>readings = real, reads = 2\<rparr>, gen = \<lparr>src = (\<lambda>n. 0), pos = 0\<rparr>, stats = [],
         phase = Prompt, delay_until = 0, target_btn = ''A'', prompt_shown_t = Some 1,
         last_feedback = FbStart, last_feedback_t = 0, summary_lines_var = [], running = True,
         bag = \<lparr>sb_items = ALL_TARGETS, sb_bag = [''B'']\<rparr>,
         trigger_armed = [''LT'' \<mapsto> False, ''RT'' \<mapsto> True], saved = []\<rparr> = Inr s'"
  by (simp add: v2_eval)

lemma poll_released_runs:
  "\<exists>s'. v2_poll_axis 2 [0, 0, 0, 0, 0, 0] (4, ''LT'')
        \<lparr>clk = \<lparr>readings = real, reads = 3\<rparr>, gen = \<lparr>src = (\<lambda>n. 0), pos = 0\<rparr>, stats = [],
         phase = Prompt, delay_until = 0, target_btn = ''A'', prompt_shown_t = Some 1,
         last_feedback = FbStart, last_feedback_t = 0, summary_lines_var = [], running = True,
         bag = \<lparr>sb_items = ALL_TARGETS, sb_bag = [''B'']\<rparr>,
         trigger_armed = [''LT'' \<mapsto> False, ''RT'' \<mapsto> True], saved = []\<rparr> = Inr s'"
  by (simp add: v2_eval)

text \<open>Claim C4 (amended) with the prompt for A live and LT held at 1.0: polled while armed,
  LT fires one (wrong) press and is disarmed; polled while disarmed, it fires nothing, and it
  is still disarmed after a whole frame; polled at 0.0 while disarmed, it is armed again.\<close>

theorem trigger_hysteresis_witness:
  "(4, ''LT'') \<in> set TRIGGER_AXES \<and> 4 < length [0, 0, 0, 0, 1, 0 :: real]
   \<and> TRIGGER_THRESHOLD < [0, 0, 0, 0, 1, 0] ! 4 \<and> TRIGGER_RELEASE \<le> [0, 0, 0, 0, 1, 0] ! 4
   \<and> (\<exists>s'. v2_poll_axis 2 [0, 0, 0, 0, 1, 0] (4, ''LT'')
        \<lparr>clk = \<lparr>readings = real, reads = 3\<rparr>, gen = \<lparr>src = (\<lambda>n. 0), pos = 0\<rparr>, stats = [],
         phase = Prompt, delay_until = 0, target_btn = ''A'', prompt_shown_t = Some 1,
         last_feedback = FbStart, last_feedback_t = 0, summary_lines_var = [], running = True,
         bag = \<lparr>sb_items = ALL_TARGETS, sb_bag = [''B'']\<rparr>,
         trigger_armed = [''LT'' \<mapsto> True, ''RT'' \<mapsto> True], saved = []\<rparr> = Inr s'
       \<and> trigger_armed s' ''LT'' = Some False
       \<and> stats s' = [\<lparr>target = ''A'', pressed = Some ''LT'', reaction_s = Some 1, correct = False\<rparr>])
   \<and> (\<exists>s'. v2_poll_axis 2 [0, 0, 0, 0, 1, 0] (4, ''LT'')
        \<lparr>clk = \<lparr>readings = real, reads = 3\<rparr>, gen = \<lparr>src = (\<lambda>n. 0), pos = 0\<rparr>, stats = [],
         phase = Prompt, delay_until = 0, target_btn = ''A'', prompt_shown_t = Some 1,
         last_feedback = FbStart, last_feedback_t = 0, summary_lines_var = [], running = True,
         bag = \<lparr>sb_items = ALL_TARGETS, sb_bag = [''B'']\<rparr>,
         trigger_armed = [''LT'' \<mapsto> False, ''RT'' \<mapsto> True], saved = []\<rparr> = Inr s'
       \<and> stats s' = [])
   \<and> (\<exists>s'. v2_tick ([], [0, 0, 0, 0, 1, 0])
        \<lparr>clk = \<lparr>readings = real, reads = 2\<rparr>, gen = \<lparr>src = (\<lambda>n. 0), pos = 0\<rparr>, stats = [],
         phase = Prompt, delay_until = 0, target_btn = ''A'', prompt_shown_t = Some 1,
         last_feedback = FbStart, last_feedback_t = 0, summary_lines_var = [], running = True,
         bag = \<lparr>sb_items = ALL_TARGETS, sb_bag = [''B'']\<rparr>,
         trigger_armed = [''LT'' \<mapsto> False, ''RT'' \<mapsto> True], saved = []\<rparr> = Inr s'
       \<and> filter (\<lambda>a. pressed a = Some ''LT'') (stats s') = [])
   \<and> [0, 0, 0, 0, 0, 0] ! 4 < TRIGGER_RELEASE
   \<and> (\<exists>s'. v2_poll_axis 2 [0, 0, 0, 0, 0, 0] (4, ''LT'')
        \<lparr>clk = \<lparr>readings = real, reads = 3\<rparr>, gen = \<lparr>src = (\<lambda>n. 0), pos = 0\<rparr>, stats = [],
         phase = Prompt, delay_until = 0, target_btn = ''A'', prompt_shown_t = Some 1,
         last_feedback = FbStart, last_feedback_t = 0, summary_lines_var = [], running = True,
         bag = \<lparr>sb_items = ALL_TARGETS, sb_bag = [''B'']\<rparr>,
         trigger_armed = [''LT'' \<mapsto> False, ''RT'' \<mapsto> True], saved = []\<rparr> = Inr s'
       \<and> trigger_armed s' ''LT'' = Some True \<and> stats s' = [])"
proof -
  let ?axes = "[0, 0, 0, 0, 1, 0 :: real]"
  let ?zero = "[0, 0, 0, 0, 0, 0 :: real]"
  let ?sa = "\<lparr>clk = \<lparr>readings = real, reads = 3\<rparr>, gen = \<lparr>src = (\<lambda>n. 0), pos = 0\<rparr>, stats = [],
         phase = Prompt, delay_until = 0, target_btn = ''A'', prompt_shown_t = Some 1,
         last_feedback = FbStart, last_feedback_t = 0, summary_lines_var = [], running = True,
         bag = \<lparr>sb_items = ALL_TARGETS, sb_bag = [''B'']\<rparr>,
         trigger_armed = [''LT'' \<mapsto> True, ''RT'' \<mapsto> True], saved = []\<rparr>"
  let ?sb = "\<lparr>clk = \<lparr>readings = real, reads = 3\<rparr>, gen = \<lparr>src = (\<lambda>n. 0), pos = 0\<rparr>, stats = [],
         phase = Prompt, delay_until = 0, target_btn = ''A'', prompt_shown_t = Some 1,
         last_feedback = FbStart, last_feedback_t = 0, summary_lines_var = [], running = True,
         bag = \<lparr>sb_items = ALL_TARGETS, sb_bag = [''B'']\<rparr>,
         trigger_armed = [''LT'' \<mapsto> False, ''RT'' \<mapsto> True], saved = []\<rparr>"
  let ?sc = "\<lparr>clk = \<lparr>readings = real, reads = 2\<rparr>, gen = \<lparr>src = (\<lambda>n. 0), pos = 0\<rparr>, stats = [],
         phase = Prompt, delay_until = 0, target_btn = ''A'', prompt_shown_t = Some 1,
         last_feedback = FbStart, last_feedback_t = 0, summary_lines_var = [], running = True,
         bag = \<lparr>sb_items = ALL_TARGETS, sb_bag = [''B'']\<rparr>,
         trigger_armed = [''LT'' \<mapsto> False, ''RT'' \<mapsto> True], saved = []\<rparr>"
  have h1: "(4, ''LT'') \<in> set TRIGGER_AXES" by (simp add: TRIGGER_AXES_def)
  have h2: "4 < length ?axes" by simp
  have h3: "TRIGGER_THRESHOLD < ?axes ! 4" by (simp add: TRIGGER_THRESHOLD_def)
  have h4: "TRIGGER_RELEASE \<le> ?axes ! 4" by (simp add: TRIGGER_RELEASE_def)
  obtain sa' where a: "v2_poll_axis 2 ?axes (4, ''LT'') ?sa = Inr sa'" using poll_armed_runs by blast
  have ha: "trigger_armed ?sa ''LT'' = Some True \<and> 4 < length ?axes \<and> TRIGGER_THRESHOLD < ?axes ! 4
        \<and> v2_poll_axis 2 ?axes (4, ''LT'') ?sa = Inr sa'"
    using h2 h3 a by simp
  have ca: "trigger_armed sa' ''LT'' = Some False
       \<and> stats sa' = [\<lparr>target = ''A'', pressed = Some ''LT'', reaction_s = Some 1, correct = False\<rparr>]"
    using trigger_hysteresis[where s = ?sa and name = "''LT''" and ai = 4 and axes = ?axes
        and now = 2 and s' = sa', THEN conjunct2, THEN conjunct1, THEN mp, OF ha]
    by simp
  obtain sb' where b: "v2_poll_axis 2 ?axes (4, ''LT'') ?sb = Inr sb'" using poll_disarmed_runs by blast
  have hb: "\<not> (trigger_armed ?sb ''LT'' = Some True \<and> 4 < length ?axes \<and> TRIGGER_THRESHOLD < ?axes ! 4)
        \<and> v2_poll_axis 2 ?axes (4, ''LT'') ?sb = Inr sb'"
    using b by simp
  have cb: "stats sb' = []"
    using trigger_hysteresis[where s = ?sb and name = "''LT''" and ai = 4 and axes = ?axes
        and now = 2 and s' = sb', THEN conjunct2, THEN conjunct2, THEN conjunct1, THEN mp, OF hb]
    by simp
  obtain sc' where c: "v2_tick ([], ?axes) ?sc = Inr sc'" using frame_disarmed_runs by blast
  have hc: "(4, ''LT'') \<in> set TRIGGER_AXES \<and> trigger_armed ?sc ''LT'' = Some False
        \<and> (4 < length (snd ([]::event list, ?axes)) \<longrightarrow> TRIGGER_RELEASE \<le> snd ([]::event list, ?axes) ! 4)
        \<and> v2_tick ([], ?axes) ?sc = Inr sc'"
    using h1 h4 c by simp
  have cc: "filter (\<lambda>a. pressed a = Some ''LT'') (stats sc') = []"
    using trigger_hysteresis[where s = ?sc and name = "''LT''" and ai = 4
        and inp = "([], ?axes)" and sn = sc', THEN conjunct2, THEN conjunct2, THEN conjunct2,
        THEN conjunct1, THEN mp, OF hc]
    by simp
  have h5: "?zero ! 4 < TRIGGER_RELEASE" by (simp add: TRIGGER_RELEASE_def)
  obtain sd' where d: "v2_poll_axis 2 ?zero (4, ''LT'') ?sb = Inr sd'" using poll_released_runs by blast
  have hd: "4 < length ?zero \<and> ?zero ! 4 < TRIGGER_RELEASE
        \<and> v2_poll_axis 2 ?zero (4, ''LT'') ?sb = Inr sd'"
    using h5 d by simp
  have cd: "trigger_armed sd' ''LT'' = Some True \<and> stats sd' = []"
    using trigger_hysteresis[where s = ?sb and name = "''LT''" and ai = 4 and axes = ?zero
        and now = 2 and s' = sd', THEN conjunct2, THEN conjunct2, THEN conjunct2, THEN conjunct2,
        THEN mp, OF hd]
    by simp
  show ?thesis using h1 h2 h3 h4 a ca b cb c cc h5 d cd by blast
qed

text \<open>Claim C4 as stated fails: LT is held at 1.0, never below the release threshold, for
  three frames. It fires the correct press in the first frame; the second frame makes the
  next prompt live and arms LT again; in the third frame LT fires a second press event.\<close>

theorem trigger_hysteresis_counterexample:
  "TRIGGER_RELEASE \<le> [0, 0, 0, 0, 1, 0] ! 4
   \<and> map_sum id stats
     (v2_run [([], [0, 0, 0, 0, 1, 0]), ([], [0, 0, 0, 0, 1, 0]), ([], [0, 0, 0, 0, 1, 0])]
        \<lparr>clk = \<lparr>readings = real, reads = 2\<rparr>, gen = \<lparr>src = (\<lambda>n. 0), pos = 0\<rparr>, stats = [],
         phase = Prompt, delay_until = 0, target_btn = ''LT'', prompt_shown_t = Some 1,
         last_feedback = FbStart, last_feedback_t = 0, summary_lines_var = [], running = True,
         bag = \<lparr>sb_items = ALL_TARGETS, sb_bag = [''A'']\<rparr>,
         trigger_armed = [''LT'' \<mapsto> True, ''RT'' \<mapsto> True], saved = []\<rparr>)
   = Inr [\<lparr>target = ''LT'', pressed = Some ''LT'', reaction_s = Some 1, correct = True\<rparr>,
          \<lparr>target = ''A'', pressed = Some ''LT'', reaction_s = Some 1, correct = False\<rparr>]"
  by (simp add: v2_eval)

text \<open>Claim C5 as stated fails: LT was disarmed by the previous trial and is held at 1.0.
  The first frame makes the new prompt live; in the second frame the held trigger fires a
  press event for the new prompt, with no release in between.\<close>

theorem trigger_rearmed_on_new_prompt_counterexample:
  "map_sum id phase
     (v2_tick ([], [0, 0, 0, 0, 1, 0])
        \<lparr>clk = \<lparr>readings = real, reads = 3\<rparr>, gen = \<lparr>src = (\<lambda>n. 0), pos = 0\<rparr>, stats = [],
         phase = Delay, delay_until = 2, target_btn = ''LT'', prompt_shown_t = None,
         last_feedback = FbStart, last_feedback_t = 0, summary_lines_var = [], running = True,
         bag = \<lparr>sb_items = ALL_TARGETS, sb_bag = [''A'']\<rparr>,
         trigger_armed = [''LT'' \<mapsto> False, ''RT'' \<mapsto> True], saved = []\<rparr>) = Inr Prompt
   \<and> map_sum id stats
     (v2_run [([], [0, 0, 0, 0, 1, 0]), ([], [0, 0, 0, 0, 1, 0])]
        \<lparr>clk = \<lparr>readings = real, reads = 3\<rparr>, gen = \<lparr>src = (\<lambda>n. 0), pos = 0\<rparr>, stats = [],
         phase = Delay, delay_until = 2, target_btn = ''LT'', prompt_shown_t = None,
         last_feedback = FbStart, last_feedback_t = 0, summary_lines_var = [], running = True,
         bag = \<lparr>sb_items = ALL_TARGETS, sb_bag = [''A'']\<rparr>,
         trigger_armed = [''LT'' \<mapsto> False, ''RT'' \<mapsto> True], saved = []\<rparr>)
   = Inr [\<lparr>target = ''LT'', pressed = Some ''LT'', reaction_s = Some 1, correct = True\<rparr>]"
  by (simp add: v2_eval)

section \<open>Verification: presses during the waiting period\<close>








section \<open>Verification: the correct press\<close>















































end
